theory Spec2Isabelle
  imports Main "HOL-Library.Word" "HOL-Library.Log_Nat"
begin

section \<open>local\_thr: a throughput receiver with disk-writer threads\<close>

text \<open>
  The development embeds \<^verbatim>\<open>perf/local_thr.cpp\<close>: the worker function
  \<^verbatim>\<open>file_writer\<close> and the driver \<^verbatim>\<open>main\<close> with its receive loop.
  The transport (\<^verbatim>\<open>zmq_recvmsg\<close>), the stopwatch, \<^verbatim>\<open>fopen\<close> and the thread
  scheduler are the environment; their answers are parameters of the model.
\<close>

subsection \<open>Machine integers and formatting\<close>

type_synonym byte = "8 word"

definition INT_MAX :: int where
  "INT_MAX = 2147483647"

definition INT_MIN :: int where
  "INT_MIN = - 2147483648"

definition MAX_THREADS :: int where
  "MAX_THREADS = 10"

text \<open>The decimal digits of a natural number, most significant first.\<close>

fun dec :: "nat \<Rightarrow> string" where
  "dec n = (if n < 10 then [''0123456789'' ! n]
            else dec (n div 10) @ [''0123456789'' ! (n mod 10)])"

declare dec.simps [simp del]

text \<open>
  \<^verbatim>\<open>%06d\<close>: at least six characters, padded on the left with zeros; the sign
  of a negative number takes one of the six places.
\<close>

definition fmt_06d :: "int \<Rightarrow> string" where
  "fmt_06d i =
     (if 0 \<le> i then replicate (6 - length (dec (nat i))) (CHR ''0'') @ dec (nat i)
      else CHR ''-'' # replicate (5 - length (dec (nat (- i)))) (CHR ''0'') @ dec (nat (- i)))"

subsection \<open>Program state\<close>

text \<open>
  A heap-allocated \<^verbatim>\<open>zmq_msg_t\<close> (the \<^verbatim>\<open>msg_copy\<close> of the loop): its address
  and the bytes it holds after \<^verbatim>\<open>zmq_msg_move\<close>.
\<close>

record msg_copy =
  ptr :: nat
  payload :: "byte list"

datatype fs_op =
    FOpen string bool
  | FWrite string "byte list"
  | FClose string

text \<open>Lines printed on standard output, by the \<^verbatim>\<open>printf\<close> that prints them.\<close>

datatype line =
    Usage
  | Header string string string string string int
  | ErrorIn string
  | IncorrectSize int
  | DataCorrupt int int
  | OpenFailed string
  | MeanHeader
  | Interval int string string
  | MessageSize int
  | MessageCount int
  | MeanThroughput int
  | MeanRates string string

text \<open>
  What the orchestrator and the workers do to threads, in the order in which
  it happens: \<open>Create slot handle msg\<close> is \<^verbatim>\<open>pthread_create\<close> into
  \<^verbatim>\<open>file_writer_thread[slot]\<close>, \<open>Run handle\<close> is the body of that thread,
  \<open>Join handle\<close> is the return of \<^verbatim>\<open>pthread_join\<close>.
\<close>

datatype event =
    Create nat nat nat
  | Run nat
  | Join nat

record state =
  thread_ctr :: int
  msg_counter :: int
  file_writer_thread :: "nat list"
  pending :: "(nat \<times> msg_copy) list"
  allocated :: "nat set"
  files :: "string \<rightharpoonup> byte list"
  fs_log :: "fs_op list"
  stdout :: "line list"
  trace :: "event list"

subsection \<open>The worker: \<^verbatim>\<open>file_writer\<close>\<close>

text \<open>\<^verbatim>\<open>zmq_msg_close(msg); free(msg);\<close>\<close>

definition release :: "msg_copy \<Rightarrow> state \<Rightarrow> state" where
  "release m st = st\<lparr>allocated := allocated st - {ptr m}\<rparr>"

text \<open>
  The worker reads the two globals \<^verbatim>\<open>disk_name\<close> and \<^verbatim>\<open>thread_ctr\<close>;
  \<^verbatim>\<open>disk_name\<close> is set once before any thread exists and is a parameter,
  \<^verbatim>\<open>thread_ctr\<close> is read from the state in which the worker runs.
  \<open>fopen_ok\<close> is the environment's answer to \<^verbatim>\<open>fopen(fn, "wc")\<close>. A
  successful \<^verbatim>\<open>fopen\<close> in mode \<^verbatim>\<open>w\<close> truncates the file, and
  \<^verbatim>\<open>fwrite\<close> (whose result the code ignores) is taken to write all bytes,
  so the file then holds the payload. The path is assumed to fit
  \<^verbatim>\<open>fn[1024]\<close>.
\<close>

definition file_writer :: "(string \<Rightarrow> bool) \<Rightarrow> string \<Rightarrow> msg_copy \<Rightarrow> state \<Rightarrow> state" where
  "file_writer fopen_ok disk_name msg st =
     (if disk_name \<noteq> ''/network'' then
        (let fn = disk_name @ ''/data/test'' @ fmt_06d (thread_ctr st) @ ''.dat'' in
         if \<not> fopen_ok fn then
           st\<lparr>stdout := stdout st @ [OpenFailed fn],
              fs_log := fs_log st @ [FOpen fn False]\<rparr>
         else
           release msg
             (st\<lparr>files := (files st)(fn \<mapsto> payload msg),
                 fs_log := fs_log st @ [FOpen fn True, FWrite fn (payload msg), FClose fn]\<rparr>))
      else release msg st)"

subsection \<open>Configuration and environment\<close>

text \<open>
  \<^verbatim>\<open>atoi\<close> of the C library: white space is skipped, an optional sign is
  read, then decimal digits up to the first other character. The value is
  assumed to fit an \<^verbatim>\<open>int\<close>.
\<close>

definition isspace :: "char \<Rightarrow> bool" where
  "isspace c = (of_char c \<in> {32, 9, 10, 11, 12, 13 :: nat})"

definition isdigit :: "char \<Rightarrow> bool" where
  "isdigit c = (48 \<le> (of_char c :: nat) \<and> (of_char c :: nat) \<le> 57)"

fun atoi_digits :: "int \<Rightarrow> string \<Rightarrow> int" where
  "atoi_digits acc [] = acc"
| "atoi_digits acc (c # cs) =
     (if isdigit c then atoi_digits (acc * 10 + (of_char c - 48)) cs else acc)"

definition atoi :: "string \<Rightarrow> int" where
  "atoi s =
     (case dropWhile isspace s of
        [] \<Rightarrow> 0
      | c # cs \<Rightarrow>
          if c = CHR ''-'' then - atoi_digits 0 cs
          else if c = CHR ''+'' then atoi_digits 0 cs
          else atoi_digits 0 (c # cs))"

text \<open>
  The local variables of \<^verbatim>\<open>main\<close> that hold the command line;
  \<open>message_size\<close> is a \<^verbatim>\<open>size_t\<close> (64 bits, unsigned), the others are
  \<^verbatim>\<open>int\<close> and strings.
\<close>

record config =
  bind_to :: string
  message_size :: "64 word"
  message_count :: int
  disk_name :: string
  no_threads :: int

text \<open>
  Lines 106--121. \<open>argv\<close> includes the program name, \<open>argc\<close> is its
  length. \<open>None\<close> is the usage error.
\<close>

definition parse_args :: "string list \<Rightarrow> config option" where
  "parse_args argv =
     (if length argv < 5 then None
      else Some
        \<lparr>bind_to = argv ! 1,
         message_size = word_of_int (atoi (argv ! 2)),
         message_count = atoi (argv ! 3),
         disk_name = argv ! 4,
         no_threads =
           (if 5 < length argv then
              (if MAX_THREADS < atoi (argv ! 5) then MAX_THREADS else atoi (argv ! 5))
            else 1)\<rparr>)"

text \<open>
  The environment of one run. \<open>recvmsg k\<close> is what the \<open>k\<close>-th call of
  \<^verbatim>\<open>zmq_recvmsg\<close> delivers (\<open>None\<close>: the call fails); \<open>sched p\<close> lists
  the thread handles whose body the scheduler runs at scheduling point \<open>p\<close>
  of the orchestrator; the stopwatches answer in microseconds.
\<close>

record env =
  hostname :: string
  zmq_init_ok :: bool
  zmq_socket_ok :: bool
  zmq_bind_ok :: bool
  zmq_msg_init_ok :: bool
  recvmsg :: "nat \<Rightarrow> byte list option"
  fopen_ok :: "string \<Rightarrow> bool"
  disk :: "string \<rightharpoonup> byte list"
  sched :: "nat \<Rightarrow> nat list"
  stopwatch_1000 :: "nat \<Rightarrow> 64 word"
  stopwatch_total :: "64 word"
  zmq_msg_close_ok :: bool
  zmq_close_ok :: bool
  zmq_term_ok :: bool

text \<open>
  The ways in which the C program leaves defined behaviour that the model
  follows: signed overflow, \<open>%\<close> by zero, an index outside
  \<^verbatim>\<open>file_writer_thread\<close>, reading the counter of a message shorter than
  four bytes, a floating-point division by zero and a conversion of a
  \<^verbatim>\<open>double\<close> outside the range of \<^verbatim>\<open>unsigned long\<close>.
\<close>

datatype ub =
    SignedOverflow
  | ModuloByZero
  | OutOfBounds
  | ShortRead
  | FloatDivisionByZero
  | FloatToIntRange

text \<open>
  \<open>Running\<close>: control goes on to the next statement; \<open>Returned c\<close>:
  \<^verbatim>\<open>main\<close> returned \<open>c\<close>; \<open>Undefined u\<close>: undefined behaviour.
\<close>

datatype status =
    Running
  | Returned int
  | Undefined ub

subsection \<open>Arithmetic of the reports\<close>

text \<open>
  A \<^verbatim>\<open>double\<close> is modelled by the rational number it denotes. \<open>fl\<close>
  rounds a rational to the nearest number with a 53-bit significand, ties to
  even (IEEE 754 binary64 in its normal range; the quantities of this program
  stay inside it).
\<close>

definition rne :: "rat \<Rightarrow> int" where
  "rne x = (let f = \<lfloor>x\<rfloor>; d = x - of_int f in
            if d < 1 / 2 then f else if 1 / 2 < d then f + 1
            else if even f then f else f + 1)"

definition ilog2 :: "rat \<Rightarrow> int" where
  "ilog2 x = (let k = bitlen (fst (quotient_of x)) - bitlen (snd (quotient_of x)) in
              if 2 powi k \<le> x then k else k - 1)"

definition fl :: "rat \<Rightarrow> rat" where
  "fl x = (if x = 0 then 0
           else let e = ilog2 \<bar>x\<bar> - 52 in of_int (rne (x / 2 powi e)) * 2 powi e)"

text \<open>
  \<^verbatim>\<open>(unsigned long) d\<close>: the fraction is discarded; the conversion is
  undefined when the integral part does not fit.
\<close>

definition to_ulong :: "rat \<Rightarrow> 64 word option" where
  "to_ulong d = (if d \<le> - 1 \<or> 2 ^ 64 \<le> d then None else Some (word_of_int \<lfloor>d\<rfloor>))"

text \<open>\<^verbatim>\<open>(int) u\<close> for an \<^verbatim>\<open>unsigned long u\<close>: the low 32 bits, signed.\<close>

definition to_int :: "64 word \<Rightarrow> int" where
  "to_int u = sint (ucast u :: 32 word)"

text \<open>
  Lines 206--207 and 229--230:
  \<^verbatim>\<open>(unsigned long) ((double) count / (double) elapsed * 1000000)\<close>.
\<close>

definition throughput_of :: "int \<Rightarrow> 64 word \<Rightarrow> ub + 64 word" where
  "throughput_of count elapsed =
     (if elapsed = 0 then Inl FloatDivisionByZero
      else
        (case to_ulong (fl (fl (of_int count / fl (of_int (uint elapsed))) * 1000000)) of
           None \<Rightarrow> Inl FloatToIntRange
         | Some t \<Rightarrow> Inr t))"

text \<open>
  Lines 208--209 and 231--232; the products are \<^verbatim>\<open>unsigned long\<close>
  (64 bits), which wraps.
\<close>

definition megabytes_of :: "64 word \<Rightarrow> 64 word \<Rightarrow> rat" where
  "megabytes_of t msize = fl (fl (of_int (uint (t * msize))) / 1000000)"

definition megabits_of :: "64 word \<Rightarrow> 64 word \<Rightarrow> rat" where
  "megabits_of t msize = fl (fl (of_int (uint (t * msize * 8))) / 1000000)"

text \<open>
  \<^verbatim>\<open>%.3f\<close> for a value that is not negative: the value rounded to three
  decimals.
\<close>

definition fmt_3f :: "rat \<Rightarrow> string" where
  "fmt_3f x =
     (let k = nat (rne (x * 1000)) in
      dec (k div 1000) @ ''.'' @ replicate (3 - length (dec (k mod 1000))) (CHR ''0'')
        @ dec (k mod 1000))"

subsection \<open>Threads\<close>

text \<open>
  The body of the thread with handle \<open>t\<close> runs, in one piece, in the state
  in which the scheduler picks it. A handle that is not waiting to run is
  passed over.
\<close>

definition run_thread :: "config \<Rightarrow> env \<Rightarrow> nat \<Rightarrow> state \<Rightarrow> state" where
  "run_thread cfg e t st =
     (case map_of (pending st) t of
        None \<Rightarrow> st
      | Some m \<Rightarrow>
          (file_writer (fopen_ok e) (disk_name cfg) m st)
            \<lparr>pending := filter (\<lambda>p. fst p \<noteq> t) (pending st),
             trace := trace st @ [Run t]\<rparr>)"

definition schedule :: "config \<Rightarrow> env \<Rightarrow> nat list \<Rightarrow> state \<Rightarrow> state" where
  "schedule cfg e ts st = fold (run_thread cfg e) ts st"

text \<open>
  \<^verbatim>\<open>pthread_join\<close> returns when the thread has terminated: if its body has
  not run yet, it runs while the caller waits.
\<close>

definition pthread_join :: "config \<Rightarrow> env \<Rightarrow> nat \<Rightarrow> state \<Rightarrow> state" where
  "pthread_join cfg e t st =
     (let st' = run_thread cfg e t st in st'\<lparr>trace := trace st' @ [Join t]\<rparr>)"

text \<open>
  \<^verbatim>\<open>pthread_create(&(file_writer_thread[slot]), NULL, file_writer, msg_copy)\<close>,
  taken to succeed; \<open>t\<close> is the handle it stores.
\<close>

definition pthread_create :: "nat \<Rightarrow> nat \<Rightarrow> msg_copy \<Rightarrow> state \<Rightarrow> state" where
  "pthread_create slot t m st =
     st\<lparr>file_writer_thread := (file_writer_thread st)[slot := t],
        pending := pending st @ [(t, m)],
        trace := trace st @ [Create slot t (ptr m)]\<rparr>"

subsection \<open>The receive loop of \<^verbatim>\<open>main\<close>\<close>

text \<open>C's \<open>/\<close> and \<open>%\<close> on \<^verbatim>\<open>int\<close>: the quotient is truncated towards zero.\<close>

definition c_div :: "int \<Rightarrow> int \<Rightarrow> int" where
  "c_div a b = sgn a * sgn b * (\<bar>a\<bar> div \<bar>b\<bar>)"

definition c_mod :: "int \<Rightarrow> int \<Rightarrow> int" where
  "c_mod a b = a - c_div a b * b"

text \<open>
  \<^verbatim>\<open>*(int*) zmq_msg_data(&msg)\<close> on a little-endian host: the first four
  bytes as a signed 32-bit number.
\<close>

definition read_int :: "byte list \<Rightarrow> int option" where
  "read_int bs =
     (if length bs < 4 then None
      else let v = uint (bs ! 0) + 256 * uint (bs ! 1) + 65536 * uint (bs ! 2)
                     + 16777216 * uint (bs ! 3)
           in Some (if v < 2 ^ 31 then v else v - 2 ^ 32))"

definition in_int :: "int \<Rightarrow> bool" where
  "in_int v = (INT_MIN \<le> v \<and> v \<le> INT_MAX)"

text \<open>
  Lines 193--202: the copy of the message, the join of the thread that
  occupies the slot, the new thread. The copy made in iteration \<open>i\<close> is at
  address \<open>i\<close>, and the thread created there has handle \<open>i + 1\<close>: handles
  are not null.
\<close>

definition dispatch :: "config \<Rightarrow> env \<Rightarrow> int \<Rightarrow> byte list \<Rightarrow> state \<Rightarrow> status \<times> state" where
  "dispatch cfg e i data st =
     (let m = \<lparr>ptr = nat i, payload = data\<rparr>;
          st1 = st\<lparr>allocated := insert (ptr m) (allocated st)\<rparr>
      in
        if no_threads cfg = 0 then (Undefined ModuloByZero, st1)
        else
          let slot = c_mod i (no_threads cfg) in
          if slot < 0 \<or> MAX_THREADS \<le> slot then (Undefined OutOfBounds, st1)
          else
            let st2 =
              (if file_writer_thread st1 ! nat slot \<noteq> 0
               then pthread_join cfg e (file_writer_thread st1 ! nat slot) st1
               else st1)
            in (Running, pthread_create (nat slot) (Suc (nat i)) m st2))"

text \<open>Lines 204--215: the report after every 1000th message.\<close>

definition interval_report :: "config \<Rightarrow> env \<Rightarrow> int \<Rightarrow> state \<Rightarrow> status \<times> state" where
  "interval_report cfg e i st =
     (case throughput_of 1000 (stopwatch_1000 e (nat i)) of
        Inl u \<Rightarrow> (Undefined u, st)
      | Inr t \<Rightarrow>
          (Running,
           st\<lparr>stdout := stdout st @
              [Interval (to_int t) (fmt_3f (megabytes_of t (message_size cfg)))
                 (fmt_3f (megabits_of t (message_size cfg)))]\<rparr>))"

text \<open>Lines 181--185: the size check only prints.\<close>

definition size_check :: "config \<Rightarrow> byte list \<Rightarrow> state \<Rightarrow> state" where
  "size_check cfg data st =
     (if of_nat (length data) \<noteq> message_size cfg
      then st\<lparr>stdout := stdout st @ [IncorrectSize (int (length data))]\<rparr>
      else st)"

text \<open>Lines 188--192: the check of the counter, which only prints.\<close>

definition integrity_check :: "int \<Rightarrow> state \<Rightarrow> state" where
  "integrity_check new_msg_counter st =
     (if new_msg_counter - msg_counter st \<noteq> 1
      then st\<lparr>stdout := stdout st @ [DataCorrupt (msg_counter st) new_msg_counter],
              msg_counter := new_msg_counter\<rparr>
      else st\<lparr>msg_counter := new_msg_counter\<rparr>)"

text \<open>
  Lines 203--215: \<^verbatim>\<open>thread_ctr++\<close> and the interval report. The scheduler
  may run waiting threads after \<^verbatim>\<open>pthread_create\<close> (point \<open>2 * i\<close>) and
  after \<^verbatim>\<open>thread_ctr++\<close> (point \<open>2 * i + 1\<close>).
\<close>

definition count_and_report :: "config \<Rightarrow> env \<Rightarrow> int \<Rightarrow> state \<Rightarrow> status \<times> state" where
  "count_and_report cfg e i st =
     (let st5 = schedule cfg e (sched e (2 * nat i)) st in
      if thread_ctr st5 = INT_MAX then (Undefined SignedOverflow, st5)
      else
        let st6 = st5\<lparr>thread_ctr := thread_ctr st5 + 1\<rparr>;
            st7 = schedule cfg e (sched e (2 * nat i + 1)) st6
        in
          if 0 < i \<and> c_mod i 1000 = 0 then interval_report cfg e i st7
          else (Running, st7))"

text \<open>
  Lines 175--216: one iteration, from \<^verbatim>\<open>zmq_recvmsg\<close> to the end of the
  body.
\<close>

definition loop_body :: "config \<Rightarrow> env \<Rightarrow> int \<Rightarrow> state \<Rightarrow> status \<times> state" where
  "loop_body cfg e i st =
     (case recvmsg e (Suc (nat i)) of
        None \<Rightarrow> (Returned (- 1), st\<lparr>stdout := stdout st @ [ErrorIn ''zmq_recvmsg'']\<rparr>)
      | Some data \<Rightarrow>
          (case read_int data of
             None \<Rightarrow> (Undefined ShortRead, size_check cfg data st)
           | Some new_msg_counter \<Rightarrow>
               if \<not> in_int (new_msg_counter - msg_counter st)
               then (Undefined SignedOverflow, size_check cfg data st)
               else
                 (case dispatch cfg e i data
                         (integrity_check new_msg_counter (size_check cfg data st)) of
                    (Running, st4) \<Rightarrow> count_and_report cfg e i st4
                  | (Returned c, st4) \<Rightarrow> (Returned c, st4)
                  | (Undefined u, st4) \<Rightarrow> (Undefined u, st4))))"

text \<open>
  Line 174: \<^verbatim>\<open>for (i = 0; i != message_count - 1; i++)\<close>. The result is
  how the loop ended, the value of \<open>i\<close> then, and the state. \<open>Running\<close> is
  the exit through the loop condition. \<open>message_count - 1\<close> overflows for
  \<open>INT_MIN\<close>, and \<open>i++\<close> at \<open>INT_MAX\<close>.
\<close>

function receive_loop :: "config \<Rightarrow> env \<Rightarrow> int \<Rightarrow> state \<Rightarrow> status \<times> int \<times> state" where
  "receive_loop cfg e i st =
     (if message_count cfg = INT_MIN then (Undefined SignedOverflow, i, st)
      else if i = message_count cfg - 1 then (Running, i, st)
      else
        (case loop_body cfg e i st of
           (Running, st') \<Rightarrow>
             if INT_MAX \<le> i then (Undefined SignedOverflow, i, st')
             else receive_loop cfg e (i + 1) st'
         | (Returned c, st') \<Rightarrow> (Returned c, i, st')
         | (Undefined u, st') \<Rightarrow> (Undefined u, i, st')))"
  by pat_completeness auto
termination
  by (relation "measure (\<lambda>(cfg, e, i, st). nat (INT_MAX - i))") auto

declare receive_loop.simps [simp del]

subsection \<open>\<^verbatim>\<open>main\<close>\<close>

text \<open>
  The state of the process when \<^verbatim>\<open>main\<close> starts, and the state in which
  the loop is entered (lines 163--173): the counter of the first message is
  the baseline, every slot of \<^verbatim>\<open>file_writer_thread\<close> is 0.
\<close>

definition start_state :: "env \<Rightarrow> state" where
  "start_state e =
     \<lparr>thread_ctr = 0, msg_counter = 0, file_writer_thread = [],
      pending = [], allocated = {}, files = disk e, fs_log = [],
      stdout = [], trace = []\<rparr>"

definition loop_entry :: "env \<Rightarrow> int \<Rightarrow> line list \<Rightarrow> state" where
  "loop_entry e c out =
     (start_state e)
       \<lparr>msg_counter := c,
        file_writer_thread := replicate (nat MAX_THREADS) 0,
        stdout := out @ [MeanHeader]\<rparr>"

text \<open>Lines 219--232: the elapsed time of the run and the aggregate rates.\<close>

definition aggregate_elapsed :: "64 word \<Rightarrow> 64 word" where
  "aggregate_elapsed elapsed = (if elapsed = 0 then 1 else elapsed)"

definition aggregate_throughput :: "config \<Rightarrow> 64 word \<Rightarrow> ub + 64 word" where
  "aggregate_throughput cfg elapsed =
     throughput_of (message_count cfg) (aggregate_elapsed elapsed)"

text \<open>Lines 219--252, after the loop.\<close>

definition report :: "config \<Rightarrow> env \<Rightarrow> state \<Rightarrow> status \<times> state" where
  "report cfg e st =
     (if \<not> zmq_msg_close_ok e
      then (Returned (- 1), st\<lparr>stdout := stdout st @ [ErrorIn ''zmq_msg_close'']\<rparr>)
      else
        (case aggregate_throughput cfg (stopwatch_total e) of
          Inl u \<Rightarrow> (Undefined u, st)
        | Inr t \<Rightarrow>
            let st1 = st\<lparr>stdout := stdout st @
                  [MessageSize (to_int (message_size cfg)),
                   MessageCount (message_count cfg),
                   MeanThroughput (to_int t),
                   MeanRates (fmt_3f (megabytes_of t (message_size cfg)))
                     (fmt_3f (megabits_of t (message_size cfg)))]\<rparr>
            in
              if \<not> zmq_close_ok e
              then (Returned (- 1), st1\<lparr>stdout := stdout st1 @ [ErrorIn ''zmq_close'']\<rparr>)
              else if \<not> zmq_term_ok e
              then (Returned (- 1), st1\<lparr>stdout := stdout st1 @ [ErrorIn ''zmq_term'']\<rparr>)
              else (Returned 0, st1)))"

text \<open>A set-up call fails: the error is printed and \<^verbatim>\<open>main\<close> returns -1.\<close>

definition setup_failure :: "env \<Rightarrow> line list \<Rightarrow> string \<Rightarrow> status \<times> state" where
  "setup_failure e out what =
     (Returned (- 1), (start_state e)\<lparr>stdout := out @ [ErrorIn what]\<rparr>)"

text \<open>What follows the loop: the report if it was left through its condition.\<close>

definition after_loop :: "config \<Rightarrow> env \<Rightarrow> status \<times> int \<times> state \<Rightarrow> status \<times> state" where
  "after_loop cfg e r =
     (case r of
        (Running, i, st) \<Rightarrow> report cfg e st
      | (Returned c, i, st) \<Rightarrow> (Returned c, st)
      | (Undefined u, i, st) \<Rightarrow> (Undefined u, st))"

text \<open>Lines 153--217: the first message, which only sets the baseline, and the loop.\<close>

definition receive_all :: "config \<Rightarrow> env \<Rightarrow> line list \<Rightarrow> status \<times> state" where
  "receive_all cfg e out =
     (case recvmsg e 0 of
        None \<Rightarrow> setup_failure e out ''zmq_recvmsg''
      | Some data \<Rightarrow>
          (case read_int data of
             None \<Rightarrow>
               (Undefined ShortRead,
                (start_state e)
                  \<lparr>stdout := (if of_nat (length data) \<noteq> message_size cfg
                               then out @ [IncorrectSize (int (length data))] else out)\<rparr>)
           | Some c \<Rightarrow>
               after_loop cfg e
                 (receive_loop cfg e 0
                    (loop_entry e c
                       (if of_nat (length data) \<noteq> message_size cfg
                        then out @ [IncorrectSize (int (length data))] else out)))))"

text \<open>Lines 122--253, for a parsed command line.\<close>

definition run :: "config \<Rightarrow> env \<Rightarrow> string list \<Rightarrow> status \<times> state" where
  "run cfg e argv =
     (let out = [Header (hostname e) (argv ! 4) (argv ! 1) (argv ! 2) (argv ! 3)
                   (no_threads cfg)]
      in
        if \<not> zmq_init_ok e then setup_failure e out ''zmq_init''
        else if \<not> zmq_socket_ok e then setup_failure e out ''zmq_socket''
        else if \<not> zmq_bind_ok e then setup_failure e out ''zmq_bind''
        else if \<not> zmq_msg_init_ok e then setup_failure e out ''zmq_msg_init''
        else receive_all cfg e out)"

definition main :: "env \<Rightarrow> string list \<Rightarrow> status \<times> state" where
  "main e argv =
     (case parse_args argv of
        None \<Rightarrow> (Returned 1, (start_state e)\<lparr>stdout := [Usage]\<rparr>)
      | Some cfg \<Rightarrow> run cfg e argv)"

subsection \<open>Sample environments\<close>

text \<open>
  Environments for concrete runs: every set-up call succeeds, \<open>rcv\<close> is the
  transport, \<open>ok\<close> the answer of \<^verbatim>\<open>fopen\<close>, \<open>sch\<close> the scheduler; the
  disk is empty at the start.
\<close>

definition sample_env ::
  "(nat \<Rightarrow> byte list option) \<Rightarrow> (string \<Rightarrow> bool) \<Rightarrow> (nat \<Rightarrow> nat list) \<Rightarrow> env" where
  "sample_env rcv ok sch =
     \<lparr>hostname = ''host'', zmq_init_ok = True, zmq_socket_ok = True, zmq_bind_ok = True,
      zmq_msg_init_ok = True, recvmsg = rcv, fopen_ok = ok, disk = Map.empty, sched = sch,
      stopwatch_1000 = (\<lambda>_. 500000), stopwatch_total = 1000,
      zmq_msg_close_ok = True, zmq_close_ok = True, zmq_term_ok = True\<rparr>"

text \<open>
  A sender that puts the counters \<open>cs\<close> into the first byte of five-byte
  messages and then fails.
\<close>

definition counted :: "int list \<Rightarrow> nat \<Rightarrow> byte list option" where
  "counted cs k =
     (if k < length cs then Some [word_of_int (cs ! k), 0, 0, 0, 170] else None)"

definition sample_cfg :: "int \<Rightarrow> int \<Rightarrow> string \<Rightarrow> config" where
  "sample_cfg count threads path =
     \<lparr>bind_to = ''tcp://*:5555'', message_size = 5, message_count = count,
      disk_name = path, no_threads = threads\<rparr>"

subsection \<open>Notions for the statements\<close>

definition is_create :: "event \<Rightarrow> bool" where
  "is_create ev = (case ev of Create _ _ _ \<Rightarrow> True | _ \<Rightarrow> False)"

definition is_data_corrupt :: "line \<Rightarrow> bool" where
  "is_data_corrupt l = (case l of DataCorrupt _ _ \<Rightarrow> True | _ \<Rightarrow> False)"

text \<open>The lines of the aggregate report (lines 234--238).\<close>

definition is_aggregate :: "line \<Rightarrow> bool" where
  "is_aggregate l =
     (case l of MessageSize _ \<Rightarrow> True | MessageCount _ \<Rightarrow> True
      | MeanThroughput _ \<Rightarrow> True | MeanRates _ _ \<Rightarrow> True | _ \<Rightarrow> False)"

text \<open>
  The transport delivers the \<open>n\<close> messages after message \<open>k\<close>, each holds a
  counter, and each difference to the counter before (\<open>prev\<close> for the first)
  fits an \<^verbatim>\<open>int\<close>.
\<close>

fun clean_stream :: "env \<Rightarrow> int \<Rightarrow> nat \<Rightarrow> nat \<Rightarrow> bool" where
  "clean_stream e prev k 0 = True"
| "clean_stream e prev k (Suc n) =
     (case recvmsg e (Suc k) of
        None \<Rightarrow> False
      | Some d \<Rightarrow>
          (case read_int d of
             None \<Rightarrow> False
           | Some c \<Rightarrow> in_int (c - prev) \<and> clean_stream e c (Suc k) n))"

text \<open>The bound on the relative error of one rounding, and the double
  computed at lines 206 and 229 before its conversion.\<close>

definition ulp_rel :: rat where
  "ulp_rel = 1 / 2 ^ 53"

definition rate :: "int \<Rightarrow> 64 word \<Rightarrow> rat" where
  "rate count elapsed = fl (fl (of_int count / fl (of_int (uint elapsed))) * 1000000)"

text \<open>
  \<open>ran_and_joined t B\<close>: in the stretch \<open>B\<close> of a trace, the body of thread
  \<open>t\<close> runs and, later, the join of \<open>t\<close> returns. The other notions serve
  the invariant of the slots: no thread was ever created in slot \<open>s\<close>;
  every creation in the trace is followed by run and join before the next
  creation in the same slot; every thread of slot \<open>s\<close> has run and been
  joined; \<open>t\<close> is the last thread created in slot \<open>s\<close> and it waits or has
  run.
\<close>

definition ran_and_joined :: "nat \<Rightarrow> event list \<Rightarrow> bool" where
  "ran_and_joined t B = (\<exists>B1 B2 B3. B = B1 @ Run t # B2 @ Join t # B3)"

definition no_create :: "nat \<Rightarrow> event list \<Rightarrow> bool" where
  "no_create s B = (\<forall>t m. Create s t m \<notin> set B)"

definition reuse_ok :: "event list \<Rightarrow> bool" where
  "reuse_ok tr = (\<forall>A B C s t t' m m'.
      tr = A @ Create s t m # B @ Create s t' m' # C \<longrightarrow> ran_and_joined t B)"

definition slot_free :: "nat \<Rightarrow> event list \<Rightarrow> bool" where
  "slot_free s tr = (\<forall>A B t m. tr = A @ Create s t m # B \<longrightarrow> ran_and_joined t B)"

definition occupant :: "nat \<Rightarrow> nat \<Rightarrow> event list \<Rightarrow> (nat \<times> msg_copy) list \<Rightarrow> bool" where
  "occupant s t tr pend = (\<exists>A m B. tr = A @ Create s t m # B \<and> no_create s B
      \<and> (t \<in> fst ` set pend \<or> Run t \<in> set B))"

definition slots_ok :: "state \<Rightarrow> bool" where
  "slots_ok st = (reuse_ok (trace st) \<and>
     (\<forall>s < length (file_writer_thread st).
        if file_writer_thread st ! s = 0 then no_create s (trace st)
        else occupant s (file_writer_thread st ! s) (trace st) (pending st)))"

definition pool_ok :: "state \<Rightarrow> bool" where
  "pool_ok st = (slots_ok st \<and> length (file_writer_thread st) = nat MAX_THREADS)"

section \<open>Properties\<close>

subsection \<open>What an iteration changes\<close>

lemma run_thread_keeps:
  "thread_ctr (run_thread cfg e t st) = thread_ctr st"
  "msg_counter (run_thread cfg e t st) = msg_counter st"
  "file_writer_thread (run_thread cfg e t st) = file_writer_thread st"
  "filter is_create (trace (run_thread cfg e t st)) = filter is_create (trace st)"
  by (simp_all add: run_thread_def file_writer_def release_def Let_def is_create_def
      split: option.split)

lemma schedule_keeps:
  "thread_ctr (schedule cfg e ts st) = thread_ctr st"
  "msg_counter (schedule cfg e ts st) = msg_counter st"
  "file_writer_thread (schedule cfg e ts st) = file_writer_thread st"
  "filter is_create (trace (schedule cfg e ts st)) = filter is_create (trace st)"
  unfolding schedule_def
  by (induction ts arbitrary: st) (simp_all add: run_thread_keeps)

lemma pthread_join_keeps:
  "thread_ctr (pthread_join cfg e t st) = thread_ctr st"
  "msg_counter (pthread_join cfg e t st) = msg_counter st"
  "file_writer_thread (pthread_join cfg e t st) = file_writer_thread st"
  "filter is_create (trace (pthread_join cfg e t st)) = filter is_create (trace st)"
  by (simp_all add: pthread_join_def Let_def run_thread_keeps is_create_def)

lemma dispatch_Running:
  assumes "dispatch cfg e i data st = (Running, st')"
  shows "thread_ctr st' = thread_ctr st"
    and "msg_counter st' = msg_counter st"
    and "length (file_writer_thread st') = length (file_writer_thread st)"
    and "length (filter is_create (trace st')) = Suc (length (filter is_create (trace st)))"
  using assms
  by (auto simp: dispatch_def Let_def pthread_create_def pthread_join_keeps is_create_def
      split: if_splits)

lemma interval_report_Running:
  assumes "interval_report cfg e i st = (Running, st')"
  shows "thread_ctr st' = thread_ctr st" and "msg_counter st' = msg_counter st"
    and "file_writer_thread st' = file_writer_thread st" and "trace st' = trace st"
  using assms by (auto simp: interval_report_def split: sum.splits)

lemma count_and_report_Running:
  assumes "count_and_report cfg e i st = (Running, st')"
  shows "thread_ctr st' = thread_ctr st + 1"
    and "msg_counter st' = msg_counter st"
    and "file_writer_thread st' = file_writer_thread st"
    and "filter is_create (trace st') = filter is_create (trace st)"
proof -
  let ?st7 = "schedule cfg e (sched e (2 * nat i + 1))
      ((schedule cfg e (sched e (2 * nat i)) st)
         \<lparr>thread_ctr := thread_ctr (schedule cfg e (sched e (2 * nat i)) st) + 1\<rparr>)"
  have k: "thread_ctr ?st7 = thread_ctr st + 1" "msg_counter ?st7 = msg_counter st"
    "file_writer_thread ?st7 = file_writer_thread st"
    "filter is_create (trace ?st7) = filter is_create (trace st)"
    by (simp_all add: schedule_keeps)
  from assms have "st' = ?st7 \<or> interval_report cfg e i ?st7 = (Running, st')"
    by (auto simp: count_and_report_def Let_def split: if_splits)
  then have "thread_ctr st' = thread_ctr ?st7 \<and> msg_counter st' = msg_counter ?st7
     \<and> file_writer_thread st' = file_writer_thread ?st7 \<and> trace st' = trace ?st7"
    using interval_report_Running by blast
  with k show "thread_ctr st' = thread_ctr st + 1"
    and "msg_counter st' = msg_counter st"
    and "file_writer_thread st' = file_writer_thread st"
    and "filter is_create (trace st') = filter is_create (trace st)"
    by simp_all
qed

lemma integrity_check_keeps:
  "thread_ctr (integrity_check n st) = thread_ctr st"
  "file_writer_thread (integrity_check n st) = file_writer_thread st"
  "trace (integrity_check n st) = trace st"
  "msg_counter (integrity_check n st) = n"
  by (simp_all add: integrity_check_def)

lemma size_check_keeps:
  "thread_ctr (size_check cfg d st) = thread_ctr st"
  "file_writer_thread (size_check cfg d st) = file_writer_thread st"
  "trace (size_check cfg d st) = trace st"
  "msg_counter (size_check cfg d st) = msg_counter st"
  by (simp_all add: size_check_def)

lemma loop_body_Running:
  assumes "loop_body cfg e i st = (Running, st')"
  shows "thread_ctr st' = thread_ctr st + 1"
    and "length (file_writer_thread st') = length (file_writer_thread st)"
    and "length (filter is_create (trace st')) = Suc (length (filter is_create (trace st)))"
proof -
  from assms obtain d n st4 where
    d: "dispatch cfg e i d (integrity_check n (size_check cfg d st)) = (Running, st4)"
    and c: "count_and_report cfg e i st4 = (Running, st')"
    by (auto simp: loop_body_def split: option.splits if_splits prod.splits status.splits)
  show "thread_ctr st' = thread_ctr st + 1"
    using dispatch_Running(1) [OF d] count_and_report_Running(1) [OF c]
    by (simp add: integrity_check_keeps size_check_keeps)
  show "length (file_writer_thread st') = length (file_writer_thread st)"
    using dispatch_Running(3) [OF d] count_and_report_Running(3) [OF c]
    by (simp add: integrity_check_keeps size_check_keeps)
  show "length (filter is_create (trace st')) = Suc (length (filter is_create (trace st)))"
    using dispatch_Running(4) [OF d] count_and_report_Running(4) [OF c]
    by (simp add: integrity_check_keeps size_check_keeps)
qed

lemma receive_loop_exit:
  assumes "receive_loop cfg e i st = (Running, j, st')"
  shows "j = message_count cfg - 1 \<and> i \<le> j
     \<and> thread_ctr st' = thread_ctr st + (j - i)
     \<and> int (length (filter is_create (trace st'))) =
         int (length (filter is_create (trace st))) + (j - i)"
  using assms
proof (induction cfg e i st rule: receive_loop.induct)
  case (1 cfg e i st)
  show ?case
  proof (cases "i = message_count cfg - 1")
    case True
    with "1.prems" show ?thesis
      by (subst (asm) receive_loop.simps) (auto split: if_splits)
  next
    case False
    with "1.prems" obtain st1 where
      b: "loop_body cfg e i st = (Running, st1)" and ni: "\<not> INT_MAX \<le> i"
      and nm: "message_count cfg \<noteq> INT_MIN"
      and r: "receive_loop cfg e (i + 1) st1 = (Running, j, st')"
      by (auto simp: receive_loop.simps [of cfg e i st]
          split: if_splits prod.splits status.splits)
    from "1.IH" [OF nm False b [symmetric] _ ni r] 
    have ih: "j = message_count cfg - 1 \<and> i + 1 \<le> j
       \<and> thread_ctr st' = thread_ctr st1 + (j - (i + 1))
       \<and> int (length (filter is_create (trace st'))) =
         int (length (filter is_create (trace st1))) + (j - (i + 1))"
      by simp
    with loop_body_Running [OF b] show ?thesis by simp
  qed
qed


subsection \<open>Rounding\<close>

lemma rne_error: "\<bar>of_int (rne y) - y\<bar> \<le> 1 / 2"
proof -
  have "of_int \<lfloor>y\<rfloor> \<le> y" "y < of_int \<lfloor>y\<rfloor> + 1" by linarith+
  then show ?thesis
    by (auto simp: rne_def Let_def abs_le_iff)
qed

lemma rne_nonneg: "0 \<le> y \<Longrightarrow> 0 \<le> rne y"
  by (auto simp: rne_def Let_def)

lemma pow2_nat_powi: "0 \<le> k \<Longrightarrow> (2::rat) ^ nat k = 2 powi k"
  by (simp add: power_int_def)

lemma ilog2_bounds:
  assumes "0 < x"
  shows "2 powi ilog2 x \<le> x \<and> x < 2 powi (ilog2 x + 1)"
proof -
  define p where "p = fst (quotient_of x)"
  define q where "q = snd (quotient_of x)"
  have qp: "0 < q" unfolding q_def by (rule quotient_of_denom_pos')
  have x: "x = of_int p / of_int q"
    unfolding p_def q_def by (rule quotient_of_div) simp
  with assms qp have pp: "0 < p"
    by (simp add: zero_less_divide_iff)
  define a where "a = bitlen p"
  define b where "b = bitlen q"
  have a1: "1 \<le> a" and b1: "1 \<le> b"
    using pp qp by (auto simp: a_def b_def bitlen_alt_def)
  have pb: "2 ^ nat (a - 1) \<le> p" "p < 2 ^ nat a"
    using bitlen_bounds [OF pp] by (simp_all add: a_def)
  have qb: "2 ^ nat (b - 1) \<le> q" "q < 2 ^ nat b"
    using bitlen_bounds [OF qp] by (simp_all add: b_def)
  have pr: "2 powi (a - 1) \<le> (of_int p :: rat)" "(of_int p :: rat) < 2 powi a"
  proof -
    have "(of_int (2 ^ nat (a - 1)) :: rat) \<le> of_int p"
      using pb(1) by (simp only: of_int_le_iff)
    then show "2 powi (a - 1) \<le> (of_int p :: rat)"
      using a1 by (simp add: pow2_nat_powi)
    have "(of_int p :: rat) < of_int (2 ^ nat a)"
      using pb(2) by (simp only: of_int_less_iff)
    then show "(of_int p :: rat) < 2 powi a"
      using a1 by (simp add: pow2_nat_powi)
  qed
  have qr: "2 powi (b - 1) \<le> (of_int q :: rat)" "(of_int q :: rat) < 2 powi b"
  proof -
    have "(of_int (2 ^ nat (b - 1)) :: rat) \<le> of_int q"
      using qb(1) by (simp only: of_int_le_iff)
    then show "2 powi (b - 1) \<le> (of_int q :: rat)"
      using b1 by (simp add: pow2_nat_powi)
    have "(of_int q :: rat) < of_int (2 ^ nat b)"
      using qb(2) by (simp only: of_int_less_iff)
    then show "(of_int q :: rat) < 2 powi b"
      using b1 by (simp add: pow2_nat_powi)
  qed
  have qpos: "0 < (of_int q :: rat)" using qp by simp
  have up: "x < 2 powi (a - b + 1)"
  proof -
    have "of_int p < (2 powi (a - b + 1) :: rat) * 2 powi (b - 1)"
      using pr(2) by (simp add: power_int_add [symmetric])
    also have "\<dots> \<le> 2 powi (a - b + 1) * of_int q"
      using qr(1) by (simp add: mult_left_mono)
    finally show ?thesis
      using qpos by (simp add: x pos_divide_less_eq)
  qed
  have lo: "2 powi (a - b - 1) < x"
  proof -
    have "(2 powi (a - b - 1) :: rat) * of_int q < 2 powi (a - b - 1) * 2 powi b"
      using qr(2) by (simp add: mult_strict_left_mono)
    also have "\<dots> = 2 powi (a - 1)"
      by (simp add: power_int_add [symmetric])
    also have "\<dots> \<le> of_int p" by (rule pr(1))
    finally show ?thesis
      using qpos by (simp add: x pos_less_divide_eq)
  qed
  have il: "ilog2 x = (if 2 powi (a - b) \<le> x then a - b else a - b - 1)"
    by (simp add: ilog2_def Let_def a_def b_def p_def q_def)
  show ?thesis
  proof (cases "2 powi (a - b) \<le> x")
    case True
    with up il show ?thesis by simp
  next
    case False
    with lo il show ?thesis by (simp add: less_imp_le)
  qed
qed

lemma pow2_exp_less:
  assumes "(2::rat) powi j < 2 powi k"
  shows "j < k"
proof (rule ccontr)
  assume "\<not> j < k"
  then have "k \<le> j" by simp
  then have "(2::rat) powi k \<le> 2 powi j"
    by (rule power_int_increasing) simp
  with assms show False by simp
qed

lemma ilog2_unique:
  assumes "2 powi k \<le> x" "x < 2 powi (k + 1)"
  shows "ilog2 x = k"
proof -
  have "0 < (2::rat) powi k" by simp
  then have xp: "0 < x" using assms(1) by (rule less_le_trans)
  note b = ilog2_bounds [OF xp]
  have "2 powi k < (2::rat) powi (ilog2 x + 1)" using assms(1) b by linarith
  then have 1: "k < ilog2 x + 1" by (rule pow2_exp_less)
  have "2 powi ilog2 x < (2::rat) powi (k + 1)" using assms(2) b by linarith
  then have 2: "ilog2 x < k + 1" by (rule pow2_exp_less)
  from 1 2 show ?thesis by simp
qed

lemma fl_pos_eq:
  assumes "0 < x"
  shows "fl x = of_int (rne (x / 2 powi (ilog2 x - 52))) * 2 powi (ilog2 x - 52)"
  using assms by (simp add: fl_def Let_def)

lemma pow2_split: "(2::rat) powi (e + k) = 2 powi e * 2 powi k"
  by (rule power_int_add) simp

lemma fl_error:
  assumes "0 < x"
  shows "\<bar>fl x - x\<bar> \<le> x * ulp_rel"
proof -
  define e where "e = ilog2 x - 52"
  define s :: rat where "s = 2 powi e"
  have sp: "0 < s" by (simp add: s_def)
  have flx: "fl x = of_int (rne (x / s)) * s"
    unfolding s_def e_def by (rule fl_pos_eq [OF assms])
  have "fl x - x = (of_int (rne (x / s)) - x / s) * s"
    using sp by (simp add: flx left_diff_distrib)
  then have "\<bar>fl x - x\<bar> = \<bar>of_int (rne (x / s)) - x / s\<bar> * s"
    using sp by (simp add: abs_mult)
  also have "\<dots> \<le> 1 / 2 * s"
    using sp by (intro mult_right_mono rne_error) simp
  also have "1 / 2 * s = 2 powi ilog2 x * ulp_rel"
  proof -
    have "(2::rat) powi ilog2 x = 2 powi (e + 52)" by (simp add: e_def)
    also have "\<dots> = s * 2 powi 52" unfolding s_def by (rule pow2_split)
    finally show ?thesis by (simp add: ulp_rel_def)
  qed
  also have "\<dots> \<le> x * ulp_rel"
    using ilog2_bounds [OF assms] by (intro mult_right_mono) (simp_all add: ulp_rel_def)
  finally show ?thesis .
qed

lemma fl_bounds:
  assumes "0 \<le> x"
  shows "x * (1 - ulp_rel) \<le> fl x" and "fl x \<le> x * (1 + ulp_rel)"
proof -
  have "x * (1 - ulp_rel) \<le> fl x \<and> fl x \<le> x * (1 + ulp_rel)"
  proof (cases "x = 0")
    case True
    then show ?thesis by (simp add: fl_def)
  next
    case False
    with assms have "0 < x" by simp
    from fl_error [OF this] show ?thesis
      by (simp add: abs_le_iff right_diff_distrib distrib_left)
  qed
  then show "x * (1 - ulp_rel) \<le> fl x" and "fl x \<le> x * (1 + ulp_rel)" by simp_all
qed

lemma fl_scale8: 
  assumes "0 < x"
  shows "fl (8 * x) = 8 * fl x"
proof -
  define e where "e = ilog2 x - 52"
  note b = ilog2_bounds [OF assms]
  have i8: "ilog2 (8 * x) = ilog2 x + 3"
  proof (rule ilog2_unique)
    have "(2::rat) powi (ilog2 x + 3) = 2 powi ilog2 x * 2 powi 3" by (rule pow2_split)
    then show "2 powi (ilog2 x + 3) \<le> 8 * x" using b by simp
    have "(2::rat) powi (ilog2 x + 1 + 3) = 2 powi (ilog2 x + 1) * 2 powi 3" by (rule pow2_split)
    moreover have "ilog2 x + 3 + 1 = ilog2 x + 1 + 3" by simp
    ultimately have "(2::rat) powi (ilog2 x + 3 + 1) = 2 powi (ilog2 x + 1) * 8" by simp
    then show "8 * x < 2 powi (ilog2 x + 3 + 1)" using b by simp
  qed
  have x8: "0 < 8 * x" using assms by simp
  have e3: "ilog2 (8 * x) - 52 = e + 3" by (simp add: i8 e_def)
  have s3: "(2::rat) powi (e + 3) = 2 powi e * 8"
    using pow2_split [of e 3] by simp
  have "fl (8 * x) = of_int (rne (8 * x / 2 powi (e + 3))) * 2 powi (e + 3)"
    using fl_pos_eq [OF x8] by (simp only: e3)
  also have "\<dots> = of_int (rne (x / 2 powi e)) * (2 powi e * 8)"
    by (simp add: s3)
  also have "\<dots> = 8 * fl x"
    using fl_pos_eq [OF assms] by (simp add: e_def)
  finally show ?thesis .
qed

lemma ulp_rel_facts:
  "0 < ulp_rel" "ulp_rel < 1"
  "(1 + ulp_rel) * (1 + ulp_rel) \<le> (1 + 1 / 2 ^ 51) * (1 - ulp_rel)"
  "(1 - 1 / 2 ^ 51) * (1 + ulp_rel) \<le> (1 - ulp_rel) * (1 - ulp_rel)"
  "(1 + ulp_rel) * (1 + ulp_rel) \<le> 1 + 1 / 2 ^ 51"
  "1 - 1 / 2 ^ 51 \<le> (1 - ulp_rel) * (1 - ulp_rel)"
  by (simp_all add: ulp_rel_def)

text \<open>Bounds for the double computed at lines 206 and 229.\<close>

lemma uint_pos: "elapsed \<noteq> 0 \<Longrightarrow> 1 \<le> uint (elapsed :: 64 word)"
  by (metis uint_0_iff uint_ge_0 linorder_not_less zless_imp_add1_zle zero_less_iff_neq_zero
      add.commute add_0 order_le_less)

lemma chain_hi:
  fixes C E a q r v w M :: rat
  assumes "0 \<le> C" "0 < E" "0 < v" "0 \<le> w" "0 \<le> M"
    and a: "E * v \<le> a" and q: "q \<le> C / a * w" and r: "r \<le> q * M * w"
  shows "r \<le> C * M / E * (w * w / v)"
proof -
  have Ev: "0 < E * v" using assms(2,3) by simp
  then have ap: "0 < a" using a by simp
  have "C / a \<le> C / (E * v)"
    using a assms(1) Ev ap by (intro divide_left_mono) simp_all
  then have "C / a * w \<le> C / (E * v) * w"
    using assms(4) by (rule mult_right_mono)
  with q have "q \<le> C / (E * v) * w" by simp
  then have "q * M \<le> C / (E * v) * w * M"
    using assms(5) by (rule mult_right_mono)
  then have "q * M * w \<le> C / (E * v) * w * M * w"
    using assms(4) by (rule mult_right_mono)
  with r have "r \<le> C / (E * v) * w * M * w" by simp
  also have "\<dots> = C * M / E * (w * w / v)"
    by simp
  finally show ?thesis .
qed

lemma chain_lo:
  fixes C E a q r v w M :: rat
  assumes "0 \<le> C" "0 < E" "0 \<le> v" "0 < w" "0 \<le> M" "0 < a"
    and a: "a \<le> E * w" and q: "C / a * v \<le> q" and r: "q * M * v \<le> r"
  shows "C * M / E * (v * v / w) \<le> r"
proof -
  have Ew: "0 < E * w" using assms(2,4) by simp
  have "C / (E * w) \<le> C / a"
    using a assms(1) assms(6) Ew by (intro divide_left_mono) simp_all
  then have "C / (E * w) * v \<le> C / a * v"
    using assms(3) by (rule mult_right_mono)
  with q have "C / (E * w) * v \<le> q" by simp
  then have "C / (E * w) * v * M \<le> q * M"
    using assms(5) by (rule mult_right_mono)
  then have "C / (E * w) * v * M * v \<le> q * M * v"
    using assms(3) by (rule mult_right_mono)
  with r have "C / (E * w) * v * M * v \<le> r" by simp
  moreover have "C * M / E * (v * v / w) = C / (E * w) * v * M * v"
    by simp
  ultimately show ?thesis by (simp only:)
qed

lemma rate_bounds:
  assumes c: "0 \<le> count" and e: "elapsed \<noteq> 0"
  shows "of_int count * 1000000 / of_int (uint elapsed) * (1 - 1 / 2 ^ 51) \<le> rate count elapsed"
    and "rate count elapsed \<le> of_int count * 1000000 / of_int (uint elapsed) * (1 + 1 / 2 ^ 51)"
proof -
  define E :: rat where "E = of_int (uint elapsed)"
  define C :: rat where "C = of_int count"
  define a where "a = fl E"
  define q where "q = fl (C / a)"
  define v where "v = 1 - ulp_rel"
  define w where "w = 1 + ulp_rel"
  have E1: "1 \<le> E" using uint_pos [OF e] unfolding E_def by (simp only: of_int_1_le_iff)
  have Epos: "0 < E" using E1 by simp
  have C0: "0 \<le> C" using c by (simp add: C_def)
  have vw: "0 < v" "0 < w" "0 \<le> v" "0 \<le> w"
    using ulp_rel_facts(1,2) by (simp_all add: v_def w_def)
  have a_lo: "E * v \<le> a" and a_hi: "a \<le> E * w"
    unfolding a_def v_def w_def using E1 by (intro fl_bounds, simp)+
  have a_pos: "0 < a"
  proof -
    have "0 < E * v" using Epos vw by simp
    with a_lo show ?thesis by simp
  qed
  have q0: "0 \<le> C / a" using C0 a_pos by simp
  have q_lo: "C / a * v \<le> q" and q_hi: "q \<le> C / a * w"
    unfolding q_def v_def w_def using q0 by (intro fl_bounds, simp)+
  have qn: "0 \<le> q"
  proof -
    have "0 \<le> C / a * v" using q0 vw by (intro mult_nonneg_nonneg) simp_all
    with q_lo show ?thesis by simp
  qed
  have qm: "0 \<le> q * 1000000" using qn by simp
  have r: "rate count elapsed = fl (q * 1000000)"
    unfolding rate_def q_def a_def C_def E_def ..
  have r_lo: "q * 1000000 * v \<le> rate count elapsed"
    and r_hi: "rate count elapsed \<le> q * 1000000 * w"
    unfolding r v_def w_def using qm by (rule fl_bounds)+
  define X where "X = C * 1000000 / E"
  have X0: "0 \<le> X" unfolding X_def using C0 Epos by (intro divide_nonneg_nonneg) simp_all
  have "rate count elapsed \<le> X * (w * w / v)"
    unfolding X_def using C0 Epos vw(1) vw(4) _ a_lo q_hi r_hi by (rule chain_hi) simp
  also have "\<dots> \<le> X * (1 + 1 / 2 ^ 51)"
  proof -
    have "w * w / v \<le> 1 + 1 / 2 ^ 51"
      using ulp_rel_facts(3) vw(1) unfolding v_def w_def by (simp only: pos_divide_le_eq)
    then show ?thesis using X0 by (rule mult_left_mono)
  qed
  finally have hi: "rate count elapsed \<le> X * (1 + 1 / 2 ^ 51)" .
  have "X * (1 - 1 / 2 ^ 51) \<le> X * (v * v / w)"
  proof -
    have "1 - 1 / 2 ^ 51 \<le> v * v / w"
      using ulp_rel_facts(4) vw(2) unfolding v_def w_def by (simp only: pos_le_divide_eq)
    then show ?thesis using X0 by (rule mult_left_mono)
  qed
  also have "\<dots> \<le> rate count elapsed"
    unfolding X_def using C0 Epos vw(3) vw(2) _ a_pos a_hi q_lo r_lo by (rule chain_lo) simp
  finally have lo: "X * (1 - 1 / 2 ^ 51) \<le> rate count elapsed" .
  show "of_int count * 1000000 / of_int (uint elapsed) * (1 - 1 / 2 ^ 51) \<le> rate count elapsed"
    using lo unfolding X_def C_def E_def .
  show "rate count elapsed \<le> of_int count * 1000000 / of_int (uint elapsed) * (1 + 1 / 2 ^ 51)"
    using hi unfolding X_def C_def E_def .
qed

lemma rate_range:
  assumes c: "0 \<le> count" "count \<le> INT_MAX" and e: "elapsed \<noteq> 0"
  shows "0 \<le> rate count elapsed" and "rate count elapsed < 2 ^ 64"
proof -
  define X :: rat where "X = of_int count * 1000000 / of_int (uint elapsed)"
  have E1: "(1::rat) \<le> of_int (uint elapsed)"
    using uint_pos [OF e] by (simp only: of_int_1_le_iff)
  have C0: "(0::rat) \<le> of_int count" using c by simp
  have X0: "0 \<le> X" unfolding X_def using C0 E1 by (intro divide_nonneg_nonneg) simp_all
  have "X \<le> of_int count * 1000000"
  proof -
    have "of_int count * 1000000 / of_int (uint elapsed) \<le> of_int count * 1000000 / (1::rat)"
      using E1 C0 by (intro divide_left_mono) simp_all
    then show ?thesis unfolding X_def by (simp only: div_by_1)
  qed
  also have "\<dots> \<le> 2147483647 * 1000000"
    using c(2) by (simp add: INT_MAX_def)
  finally have Xhi: "X \<le> 2147483647000000" by simp
  have "0 \<le> X * (1 - 1 / 2 ^ 51)" using X0 by simp
  moreover have "X * (1 - 1 / 2 ^ 51) \<le> rate count elapsed"
    using rate_bounds(1) [OF c(1) e] unfolding X_def .
  ultimately show "0 \<le> rate count elapsed"
    by (rule order_trans)
  have "rate count elapsed \<le> X * (1 + 1 / 2 ^ 51)"
    using rate_bounds(2) [OF c(1) e] unfolding X_def .
  also have "\<dots> \<le> 2147483647000000 * (1 + 1 / 2 ^ 51)"
    using Xhi by (intro mult_right_mono) simp_all
  also have "\<dots> < 2 ^ 64" by simp
  finally show "rate count elapsed < 2 ^ 64" .
qed

lemma throughput_of_defined:
  assumes c: "0 \<le> count" "count \<le> INT_MAX" and e: "elapsed \<noteq> 0"
  shows "throughput_of count elapsed = Inr (word_of_int \<lfloor>rate count elapsed\<rfloor>)"
    and "uint (word_of_int \<lfloor>rate count elapsed\<rfloor> :: 64 word) = \<lfloor>rate count elapsed\<rfloor>"
proof -
  note r = rate_range [OF c e]
  show "throughput_of count elapsed = Inr (word_of_int \<lfloor>rate count elapsed\<rfloor>)"
    unfolding throughput_of_def to_ulong_def rate_def [symmetric]
    using r e by simp
  have "0 \<le> \<lfloor>rate count elapsed\<rfloor>" using r(1) by simp
  moreover have "\<lfloor>rate count elapsed\<rfloor> < 2 ^ 64"
    using r(2) by (simp add: floor_less_iff)
  ultimately show "uint (word_of_int \<lfloor>rate count elapsed\<rfloor> :: 64 word) = \<lfloor>rate count elapsed\<rfloor>"
    by (simp add: uint_word_of_int take_bit_int_eq_self)
qed


subsection \<open>Runs that leave the loop through its condition\<close>

lemma c_mod_nonneg:
  assumes "0 \<le> i" "0 < n"
  shows "c_mod i n = i mod n"
proof -
  have "c_div i n = i div n"
    using assms by (cases "i = 0") (simp_all add: c_div_def sgn_if)
  then show ?thesis
    by (simp add: c_mod_def minus_div_mult_eq_mod)
qed

lemma dispatch_defined:
  assumes "1 \<le> no_threads cfg" "no_threads cfg \<le> MAX_THREADS" "0 \<le> i"
  shows "\<exists>st'. dispatch cfg e i d st = (Running, st')"
proof -
  have m: "c_mod i (no_threads cfg) = i mod no_threads cfg"
    using assms by (intro c_mod_nonneg) simp_all
  have "0 \<le> i mod no_threads cfg" "i mod no_threads cfg < no_threads cfg"
    using assms by simp_all
  with assms(2) have "\<not> (c_mod i (no_threads cfg) < 0 \<or> MAX_THREADS \<le> c_mod i (no_threads cfg))"
    by (simp add: m)
  moreover have "no_threads cfg \<noteq> 0" using assms(1) by simp
  ultimately show ?thesis
    by (simp add: dispatch_def Let_def)
qed

lemma interval_report_defined:
  assumes "stopwatch_1000 e (nat i) \<noteq> 0"
  shows "\<exists>st'. interval_report cfg e i st = (Running, st')"
proof -
  have "throughput_of 1000 (stopwatch_1000 e (nat i)) =
      Inr (word_of_int \<lfloor>rate 1000 (stopwatch_1000 e (nat i))\<rfloor>)"
    using assms by (intro throughput_of_defined) (simp_all add: INT_MAX_def)
  then show ?thesis by (simp add: interval_report_def)
qed

lemma count_and_report_defined:
  assumes "thread_ctr st \<noteq> INT_MAX" "stopwatch_1000 e (nat i) \<noteq> 0"
  shows "\<exists>st'. count_and_report cfg e i st = (Running, st')"
  using assms interval_report_defined [OF assms(2)]
  by (simp add: count_and_report_def Let_def schedule_keeps)

lemma loop_body_defined:
  assumes N: "1 \<le> no_threads cfg" "no_threads cfg \<le> MAX_THREADS"
    and i: "0 \<le> i" and t: "thread_ctr st \<noteq> INT_MAX"
    and sw: "stopwatch_1000 e (nat i) \<noteq> 0"
    and rc: "recvmsg e (Suc (nat i)) = Some d" and ri: "read_int d = Some c"
    and ii: "in_int (c - msg_counter st)"
  shows "\<exists>st'. loop_body cfg e i st = (Running, st') \<and> msg_counter st' = c"
proof -
  let ?st3 = "integrity_check c (size_check cfg d st)"
  obtain st4 where d: "dispatch cfg e i d ?st3 = (Running, st4)"
    using dispatch_defined [OF N i] by blast
  have "thread_ctr st4 \<noteq> INT_MAX"
    using dispatch_Running(1) [OF d] t by (simp add: integrity_check_keeps size_check_keeps)
  then obtain st' where c: "count_and_report cfg e i st4 = (Running, st')"
    using count_and_report_defined sw by blast
  have "msg_counter st' = c"
    using dispatch_Running(2) [OF d] count_and_report_Running(2) [OF c]
    by (simp add: integrity_check_keeps)
  moreover have "loop_body cfg e i st = (Running, st')"
    using rc ri ii d c by (simp add: loop_body_def size_check_keeps)
  ultimately show ?thesis by blast
qed

lemma receive_loop_defined:
  assumes N: "1 \<le> no_threads cfg" "no_threads cfg \<le> MAX_THREADS"
    and mc: "message_count cfg \<le> INT_MAX"
    and sw: "\<forall>k. stopwatch_1000 e k \<noteq> 0"
    and n: "message_count cfg - 1 - i = int n"
    and i: "0 \<le> i" and t: "thread_ctr st = i"
    and cs: "clean_stream e (msg_counter st) (nat i) n"
  shows "\<exists>st'. receive_loop cfg e i st = (Running, message_count cfg - 1, st')"
  using n i t cs
proof (induction n arbitrary: i st)
  case 0
  then have "i = message_count cfg - 1" by simp
  moreover have "message_count cfg \<noteq> INT_MIN"
    using 0 by (simp add: INT_MIN_def)
  ultimately show ?case
    by (subst receive_loop.simps) simp
next
  case (Suc n)
  from Suc.prems(4) obtain d c where
    rc: "recvmsg e (Suc (nat i)) = Some d" and ri: "read_int d = Some c"
    and ii: "in_int (c - msg_counter st)" and cs': "clean_stream e c (Suc (nat i)) n"
    by (auto split: option.splits)
  have lt: "i < message_count cfg - 1" using Suc.prems(1) by simp
  then have imax: "i < INT_MAX" using mc by simp
  then have "thread_ctr st \<noteq> INT_MAX" using Suc.prems(3) by simp
  from loop_body_defined [OF N Suc.prems(2) this _ rc ri ii] sw
  obtain st1 where b: "loop_body cfg e i st = (Running, st1)" and m: "msg_counter st1 = c"
    by blast
  have t1: "thread_ctr st1 = i + 1"
    using loop_body_Running(1) [OF b] Suc.prems(3) by simp
  have "nat (i + 1) = Suc (nat i)" using Suc.prems(2) by simp
  with cs' m have cs1: "clean_stream e (msg_counter st1) (nat (i + 1)) n" by simp
  have "message_count cfg - 1 - (i + 1) = int n" using Suc.prems(1) by simp
  from Suc.IH [OF this _ t1 cs1] Suc.prems(2)
  obtain st' where "receive_loop cfg e (i + 1) st1 = (Running, message_count cfg - 1, st')"
    by auto
  moreover have "message_count cfg \<noteq> INT_MIN"
    using lt Suc.prems(2) by (simp add: INT_MIN_def)
  ultimately show ?case
    using b lt imax by (subst receive_loop.simps) simp
qed


subsection \<open>The invariant of the slots\<close>

lemma ran_and_joined_append: "ran_and_joined t B \<Longrightarrow> ran_and_joined t (B @ X)"
  unfolding ran_and_joined_def by (metis append.assoc append_Cons)

lemma ran_and_joined_prepend: "ran_and_joined t B \<Longrightarrow> ran_and_joined t (X @ B)"
  unfolding ran_and_joined_def by (metis append.assoc)

lemma ran_then_join: "Run t \<in> set B \<Longrightarrow> ran_and_joined t (B @ [Join t])"
  unfolding ran_and_joined_def by (metis append.assoc append_Cons split_list)

lemma no_create_append [simp]: "no_create s (B @ X) = (no_create s B \<and> no_create s X)"
  by (auto simp: no_create_def)

lemma no_create_simps [simp]:
  "no_create s []" "no_create s [Run t]" "no_create s [Join t]"
  "no_create s [Create s' t m] = (s \<noteq> s')"
  by (auto simp: no_create_def)

text \<open>Two ways to split a list at an element.\<close>

lemma split_compare:
  assumes "A @ x # B = A' @ y # B'"
  shows "(A = A' \<and> x = y \<and> B = B') \<or> (\<exists>X. A = A' @ y # X \<and> B' = X @ x # B)
     \<or> (\<exists>X. A' = A @ x # X \<and> B = X @ y # B')"
  using assms by (auto simp: append_eq_append_conv2 append_eq_Cons_conv Cons_eq_append_conv)

lemma snoc_split:
  assumes "tr @ [ev] = A @ x # B"
  shows "(B = [] \<and> tr = A \<and> ev = x) \<or> (\<exists>B'. B = B' @ [ev] \<and> tr = A @ x # B')"
proof (cases B rule: rev_cases)
  case Nil
  with assms show ?thesis by simp
next
  case (snoc B' b)
  with assms have "tr @ [ev] = (A @ x # B') @ [b]" by simp
  then have "tr = A @ x # B'" "ev = b" by (simp_all only: append1_eq_conv)
  with snoc show ?thesis by simp
qed

lemma reuse_ok_snoc_other:
  assumes "reuse_ok tr" "\<forall>s t m. ev \<noteq> Create s t m"
  shows "reuse_ok (tr @ [ev])"
  unfolding reuse_ok_def
proof (intro allI impI)
  fix A B C s t t' m m'
  assume eq: "tr @ [ev] = A @ Create s t m # B @ Create s t' m' # C"
  then have "tr @ [ev] = (A @ Create s t m # B) @ Create s t' m' # C" by simp
  from snoc_split [OF this] assms(2)
  obtain C' where "tr = (A @ Create s t m # B) @ Create s t' m' # C'" by auto
  then have "tr = A @ Create s t m # B @ Create s t' m' # C'" by simp
  with assms(1) show "ran_and_joined t B" unfolding reuse_ok_def by blast
qed

lemma reuse_ok_snoc_create:
  assumes "reuse_ok tr" "slot_free s tr"
  shows "reuse_ok (tr @ [Create s t0 m0])"
  unfolding reuse_ok_def
proof (intro allI impI)
  fix A B C s1 t t' m m'
  assume eq: "tr @ [Create s t0 m0] = A @ Create s1 t m # B @ Create s1 t' m' # C"
  then have "tr @ [Create s t0 m0] = (A @ Create s1 t m # B) @ Create s1 t' m' # C" by simp
  from snoc_split [OF this]
  consider "tr = A @ Create s1 t m # B" "s1 = s"
    | C' where "tr = (A @ Create s1 t m # B) @ Create s1 t' m' # C'"
    by auto
  then show "ran_and_joined t B"
  proof cases
    case 1
    with assms(2) show ?thesis unfolding slot_free_def by blast
  next
    case 2
    then have "tr = A @ Create s1 t m # B @ Create s1 t' m' # C'" by simp
    with assms(1) show ?thesis unfolding reuse_ok_def by blast
  qed
qed

lemma no_create_slot_free: "no_create s tr \<Longrightarrow> slot_free s tr"
  unfolding no_create_def slot_free_def by (metis in_set_conv_decomp)

lemma last_joined_slot_free:
  assumes r: "reuse_ok tr" and tr: "tr = A @ Create s t m # B" and nc: "no_create s B"
    and rj: "ran_and_joined t B"
  shows "slot_free s tr"
  unfolding slot_free_def
proof (intro allI impI)
  fix A' B' t' m'
  assume "tr = A' @ Create s t' m' # B'"
  with tr have "A @ Create s t m # B = A' @ Create s t' m' # B'" by simp
  from split_compare [OF this]
  consider "t = t'" "B = B'"
    | X where "A = A' @ Create s t' m' # X" "B' = X @ Create s t m # B"
    | X where "B = X @ Create s t' m' # B'"
    by auto
  then show "ran_and_joined t' B'"
  proof cases
    case 1
    with rj show ?thesis by simp
  next
    case 2
    then have "tr = A' @ Create s t' m' # X @ Create s t m # B" using tr by simp
    with r have "ran_and_joined t' X" unfolding reuse_ok_def by blast
    then show ?thesis using 2(2) by (simp add: ran_and_joined_append)
  next
    case 3
    then have "Create s t' m' \<in> set B" by simp
    with nc show ?thesis unfolding no_create_def by blast
  qed
qed

lemma occupant_snoc:
  assumes "occupant s t tr pend" "no_create s [ev]"
    and "t \<in> fst ` set pend \<Longrightarrow> t \<in> fst ` set pend' \<or> ev = Run t"
  shows "occupant s t (tr @ [ev]) pend'"
proof -
  from assms(1) obtain A m B where tr: "tr = A @ Create s t m # B" and nc: "no_create s B"
    and pr: "t \<in> fst ` set pend \<or> Run t \<in> set B"
    unfolding occupant_def by blast
  have "tr @ [ev] = A @ Create s t m # (B @ [ev])" using tr by simp
  moreover have "no_create s (B @ [ev])" using nc assms(2) by simp
  moreover have "t \<in> fst ` set pend' \<or> Run t \<in> set (B @ [ev])"
    using pr assms(3) by auto
  ultimately show ?thesis unfolding occupant_def by blast
qed

lemma occupant_pending:
  assumes "occupant s t tr pend" "t \<in> fst ` set pend \<Longrightarrow> t \<in> fst ` set pend'"
  shows "occupant s t tr pend'"
  using assms unfolding occupant_def by blast

text \<open>The steps of the orchestrator and of the threads keep the invariant.\<close>

lemma run_thread_cases:
  "(map_of (pending st) t = None \<and> run_thread cfg e t st = st) \<or>
   (t \<in> fst ` set (pending st) \<and>
    trace (run_thread cfg e t st) = trace st @ [Run t] \<and>
    pending (run_thread cfg e t st) = filter (\<lambda>p. fst p \<noteq> t) (pending st) \<and>
    file_writer_thread (run_thread cfg e t st) = file_writer_thread st)"
proof (cases "map_of (pending st) t")
  case None
  then show ?thesis by (simp add: run_thread_def)
next
  case (Some m)
  then have "(t, m) \<in> set (pending st)" by (rule map_of_SomeD)
  then have "t \<in> fst ` set (pending st)" by force
  with Some show ?thesis
    by (simp add: run_thread_def file_writer_def release_def Let_def)
qed

lemma run_thread_slots_ok:
  assumes "slots_ok st"
  shows "slots_ok (run_thread cfg e t st)"
proof -
  from run_thread_cases [of st t cfg e] show ?thesis
  proof (elim disjE conjE)
    assume "run_thread cfg e t st = st"
    with assms show ?thesis by simp
  next
    assume tr: "trace (run_thread cfg e t st) = trace st @ [Run t]"
      and pe: "pending (run_thread cfg e t st) = filter (\<lambda>p. fst p \<noteq> t) (pending st)"
      and fw: "file_writer_thread (run_thread cfg e t st) = file_writer_thread st"
    have r: "reuse_ok (trace st @ [Run t])"
      using assms by (intro reuse_ok_snoc_other) (simp_all add: slots_ok_def)
    have "occupant s t0 (trace st @ [Run t]) (filter (\<lambda>p. fst p \<noteq> t) (pending st))"
      if "occupant s t0 (trace st) (pending st)" for s t0
      using that by (rule occupant_snoc) (auto)
    with assms r show ?thesis
      unfolding slots_ok_def tr pe fw by (auto split: if_splits)
  qed
qed

lemma schedule_slots_ok:
  "slots_ok st \<Longrightarrow> slots_ok (schedule cfg e ts st)"
  unfolding schedule_def
  by (induction ts arbitrary: st) (simp_all add: run_thread_slots_ok)

lemma run_thread_ran:
  assumes "occupant s t (trace st) (pending st)"
  shows "\<exists>A m B. trace (run_thread cfg e t st) = A @ Create s t m # B \<and> no_create s B
     \<and> Run t \<in> set B"
proof -
  from assms obtain A m B where tr: "trace st = A @ Create s t m # B" and nc: "no_create s B"
    and pr: "t \<in> fst ` set (pending st) \<or> Run t \<in> set B"
    unfolding occupant_def by blast
  from run_thread_cases [of st t cfg e] show ?thesis
  proof (elim disjE conjE)
    assume n: "map_of (pending st) t = None" and "run_thread cfg e t st = st"
    moreover from n have "t \<notin> fst ` set (pending st)" by (simp add: map_of_eq_None_iff)
    ultimately show ?thesis using tr nc pr by auto
  next
    assume "trace (run_thread cfg e t st) = trace st @ [Run t]"
    then have "trace (run_thread cfg e t st) = A @ Create s t m # (B @ [Run t])"
      using tr by simp
    moreover have "no_create s (B @ [Run t])" using nc by simp
    moreover have "Run t \<in> set (B @ [Run t])" by simp
    ultimately show ?thesis by blast
  qed
qed

lemma pthread_join_slots_ok:
  assumes ok: "slots_ok st" and s: "s < length (file_writer_thread st)"
    and t: "file_writer_thread st ! s = t" "t \<noteq> 0"
  shows "slots_ok (pthread_join cfg e t st) \<and> slot_free s (trace (pthread_join cfg e t st))
     \<and> file_writer_thread (pthread_join cfg e t st) = file_writer_thread st"
proof -
  let ?st1 = "run_thread cfg e t st"
  let ?st2 = "pthread_join cfg e t st"
  have ok1: "slots_ok ?st1" using ok by (rule run_thread_slots_ok)
  have fw1: "file_writer_thread ?st1 = file_writer_thread st"
    using run_thread_cases [of st t cfg e] by auto
  have tr2: "trace ?st2 = trace ?st1 @ [Join t]" and pe2: "pending ?st2 = pending ?st1"
    and fw2: "file_writer_thread ?st2 = file_writer_thread st"
    by (simp_all add: pthread_join_def Let_def fw1)
  have occ: "occupant s t (trace st) (pending st)"
    using ok s t unfolding slots_ok_def by (auto split: if_splits)
  from run_thread_ran [OF occ, of cfg e] obtain A m B where
    a: "trace ?st1 = A @ Create s t m # B" and nc: "no_create s B" and rn: "Run t \<in> set B"
    by blast
  have r2: "reuse_ok (trace ?st2)"
    unfolding tr2 using ok1 by (intro reuse_ok_snoc_other) (simp_all add: slots_ok_def)
  have "occupant s' t0 (trace ?st1 @ [Join t]) (pending ?st1)"
    if "occupant s' t0 (trace ?st1) (pending ?st1)" for s' t0
    using that by (rule occupant_snoc) auto
  with ok1 r2 have ok2: "slots_ok ?st2"
    unfolding slots_ok_def tr2 pe2 fw2 fw1 by (auto split: if_splits)
  have "trace ?st2 = A @ Create s t m # (B @ [Join t])" using a tr2 by simp
  moreover have "no_create s (B @ [Join t])" using nc by simp
  moreover have "ran_and_joined t (B @ [Join t])" using rn by (rule ran_then_join)
  ultimately have "slot_free s (trace ?st2)"
    using r2 by (intro last_joined_slot_free [where B = "B @ [Join t]"]) 
  with ok2 fw2 show ?thesis by simp
qed

lemma pthread_create_slots_ok:
  assumes ok: "slots_ok st" and s: "s < length (file_writer_thread st)"
    and fr: "slot_free s (trace st)" and t: "t \<noteq> 0"
  shows "slots_ok (pthread_create s t m st)"
proof -
  let ?st' = "pthread_create s t m st"
  have tr: "trace ?st' = trace st @ [Create s t (ptr m)]"
    and pe: "pending ?st' = pending st @ [(t, m)]"
    and fw: "file_writer_thread ?st' = (file_writer_thread st)[s := t]"
    by (simp_all add: pthread_create_def)
  have r: "reuse_ok (trace ?st')"
    unfolding tr using ok fr by (intro reuse_ok_snoc_create) (simp_all add: slots_ok_def)
  have own: "occupant s t (trace ?st') (pending ?st')"
    unfolding occupant_def tr pe
    by (rule exI [of _ "trace st"], rule exI [of _ "ptr m"], rule exI [of _ "[]"]) simp
  have other: "occupant s' t0 (trace ?st') (pending ?st')"
    if "occupant s' t0 (trace st) (pending st)" "s' \<noteq> s" for s' t0
    unfolding tr pe using that(1) by (rule occupant_snoc) (use that(2) in auto)
  show ?thesis
    unfolding slots_ok_def
  proof (intro conjI allI impI)
    show "reuse_ok (trace ?st')" by (rule r)
    fix s'
    assume s': "s' < length (file_writer_thread ?st')"
    then have l: "s' < length (file_writer_thread st)" by (simp add: fw)
    show "if file_writer_thread ?st' ! s' = 0 then no_create s' (trace ?st')
          else occupant s' (file_writer_thread ?st' ! s') (trace ?st') (pending ?st')"
    proof (cases "s' = s")
      case True
      with s t own show ?thesis by (simp add: fw)
    next
      case False
      then have nth: "file_writer_thread ?st' ! s' = file_writer_thread st ! s'"
        by (simp add: fw)
      from ok l have "if file_writer_thread st ! s' = 0 then no_create s' (trace st)
          else occupant s' (file_writer_thread st ! s') (trace st) (pending st)"
        unfolding slots_ok_def by blast
      with False other show ?thesis
        unfolding nth by (auto simp: tr split: if_splits)
    qed
  qed
qed

lemma slots_ok_fields:
  assumes "trace st' = trace st" "pending st' = pending st"
    "file_writer_thread st' = file_writer_thread st"
  shows "slots_ok st' = slots_ok st"
  by (simp add: slots_ok_def assms)

lemma dispatch_error:
  assumes "no_threads cfg = 0 \<or> c_mod i (no_threads cfg) < 0
      \<or> MAX_THREADS \<le> c_mod i (no_threads cfg)"
  shows "snd (dispatch cfg e i d st) = st\<lparr>allocated := insert (nat i) (allocated st)\<rparr>"
  using assms unfolding dispatch_def Let_def by (auto simp: msg_copy.simps)

lemma dispatch_ok_eq:
  assumes "no_threads cfg \<noteq> 0" "\<not> c_mod i (no_threads cfg) < 0"
    "\<not> MAX_THREADS \<le> c_mod i (no_threads cfg)"
  shows "dispatch cfg e i d st =
    (Running, pthread_create (nat (c_mod i (no_threads cfg))) (Suc (nat i))
       \<lparr>ptr = nat i, payload = d\<rparr>
       (if file_writer_thread st ! nat (c_mod i (no_threads cfg)) \<noteq> 0
        then pthread_join cfg e (file_writer_thread st ! nat (c_mod i (no_threads cfg)))
               (st\<lparr>allocated := insert (nat i) (allocated st)\<rparr>)
        else st\<lparr>allocated := insert (nat i) (allocated st)\<rparr>))"
  using assms unfolding dispatch_def Let_def by simp

lemma dispatch_slots_ok:
  assumes ok: "slots_ok st" and len: "length (file_writer_thread st) = nat MAX_THREADS"
  shows "slots_ok (snd (dispatch cfg e i d st))"
proof -
  let ?st1 = "st\<lparr>allocated := insert (nat i) (allocated st)\<rparr>"
  let ?m = "\<lparr>ptr = nat i, payload = d\<rparr>"
  have ok1: "slots_ok ?st1" using ok by (simp add: slots_ok_def)
  have fw1: "file_writer_thread ?st1 = file_writer_thread st" by simp
  show ?thesis
  proof (cases "no_threads cfg = 0 \<or> c_mod i (no_threads cfg) < 0
      \<or> MAX_THREADS \<le> c_mod i (no_threads cfg)")
    case True
    then show ?thesis using ok1 by (simp only: dispatch_error)
  next
    case False
    define s where "s = nat (c_mod i (no_threads cfg))"
    have s: "s < length (file_writer_thread ?st1)"
      using False len unfolding s_def fw1 by linarith
    define st2 where "st2 = (if file_writer_thread st ! s \<noteq> 0
        then pthread_join cfg e (file_writer_thread st ! s) ?st1 else ?st1)"
    have d: "dispatch cfg e i d st = (Running, pthread_create s (Suc (nat i)) ?m st2)"
      using False unfolding s_def st2_def by (intro dispatch_ok_eq) simp_all
    have "slots_ok st2 \<and> slot_free s (trace st2)
       \<and> file_writer_thread st2 = file_writer_thread ?st1"
    proof (cases "file_writer_thread st ! s = 0")
      case True
      then have z: "file_writer_thread ?st1 ! s = 0" by simp
      from ok1 s z have "no_create s (trace ?st1)"
        unfolding slots_ok_def by (metis (full_types))
      then have "slot_free s (trace ?st1)" by (rule no_create_slot_free)
      with True ok1 show ?thesis unfolding st2_def by simp
    next
      case False
      then have nz: "file_writer_thread ?st1 ! s \<noteq> 0" by simp
      from pthread_join_slots_ok [OF ok1 s refl nz, of cfg e] False
      show ?thesis unfolding st2_def by simp
    qed
    then have "slots_ok (pthread_create s (Suc (nat i)) ?m st2)"
      using s by (intro pthread_create_slots_ok) simp_all
    with d show ?thesis by simp
  qed
qed

lemma run_thread_length:
  "length (file_writer_thread (run_thread cfg e t st)) = length (file_writer_thread st)"
  using run_thread_cases [of st t cfg e] by auto

lemma pool_ok_run_thread: "pool_ok st \<Longrightarrow> pool_ok (run_thread cfg e t st)"
  by (simp add: pool_ok_def run_thread_slots_ok run_thread_length)

lemma pool_ok_schedule: "pool_ok st \<Longrightarrow> pool_ok (schedule cfg e ts st)"
  unfolding schedule_def
  by (induction ts arbitrary: st) (simp_all add: pool_ok_run_thread)

lemma pool_ok_fields:
  assumes "pool_ok st" "trace st' = trace st" "pending st' = pending st"
    "file_writer_thread st' = file_writer_thread st"
  shows "pool_ok st'"
  using assms by (simp add: pool_ok_def slots_ok_def)

lemma dispatch_length:
  "length (file_writer_thread (snd (dispatch cfg e i d st))) = length (file_writer_thread st)"
proof (cases "no_threads cfg = 0 \<or> c_mod i (no_threads cfg) < 0
      \<or> MAX_THREADS \<le> c_mod i (no_threads cfg)")
  case True
  then show ?thesis by (simp only: dispatch_error) simp
next
  case False
  then have "dispatch cfg e i d st =
    (Running, pthread_create (nat (c_mod i (no_threads cfg))) (Suc (nat i))
       \<lparr>ptr = nat i, payload = d\<rparr>
       (if file_writer_thread st ! nat (c_mod i (no_threads cfg)) \<noteq> 0
        then pthread_join cfg e (file_writer_thread st ! nat (c_mod i (no_threads cfg)))
               (st\<lparr>allocated := insert (nat i) (allocated st)\<rparr>)
        else st\<lparr>allocated := insert (nat i) (allocated st)\<rparr>))"
    by (intro dispatch_ok_eq) simp_all
  then show ?thesis
    by (simp add: pthread_create_def pthread_join_def Let_def run_thread_length)
qed

lemma pool_ok_dispatch: "pool_ok st \<Longrightarrow> pool_ok (snd (dispatch cfg e i d st))"
  by (simp add: pool_ok_def dispatch_slots_ok dispatch_length)

lemma pool_ok_interval_report:
  assumes "pool_ok st"
  shows "pool_ok (snd (interval_report cfg e i st))"
proof (cases "throughput_of 1000 (stopwatch_1000 e (nat i))")
  case (Inl u)
  with assms show ?thesis by (simp add: interval_report_def)
next
  case (Inr t)
  then have "snd (interval_report cfg e i st) =
      st\<lparr>stdout := stdout st @
        [Interval (to_int t) (fmt_3f (megabytes_of t (message_size cfg)))
           (fmt_3f (megabits_of t (message_size cfg)))]\<rparr>"
    by (simp add: interval_report_def)
  with assms show ?thesis by (simp add: pool_ok_fields [OF assms])
qed

lemma pool_ok_count_and_report:
  assumes "pool_ok st"
  shows "pool_ok (snd (count_and_report cfg e i st))"
proof -
  let ?st5 = "schedule cfg e (sched e (2 * nat i)) st"
  let ?st6 = "?st5\<lparr>thread_ctr := thread_ctr ?st5 + 1\<rparr>"
  let ?st7 = "schedule cfg e (sched e (2 * nat i + 1)) ?st6"
  have 5: "pool_ok ?st5" using assms by (rule pool_ok_schedule)
  then have "pool_ok ?st6" by (rule pool_ok_fields) simp_all
  then have 7: "pool_ok ?st7" by (rule pool_ok_schedule)
  then have 8: "pool_ok (snd (interval_report cfg e i ?st7))"
    by (rule pool_ok_interval_report)
  from 5 7 8 show ?thesis
    unfolding count_and_report_def Let_def by (simp split: if_split)
qed

lemma pool_ok_loop_body:
  assumes "pool_ok st"
  shows "pool_ok (snd (loop_body cfg e i st))"
proof (cases "recvmsg e (Suc (nat i))")
  case None
  then have "snd (loop_body cfg e i st) = st\<lparr>stdout := stdout st @ [ErrorIn ''zmq_recvmsg'']\<rparr>"
    by (simp add: loop_body_def)
  then show ?thesis by (simp add: pool_ok_fields [OF assms])
next
  case (Some d)
  have sc: "pool_ok (size_check cfg d st)"
    using assms by (rule pool_ok_fields) (simp_all add: size_check_def)
  show ?thesis
  proof (cases "read_int d")
    case None
    with Some sc show ?thesis by (simp add: loop_body_def)
  next
    case (Some c)
    note ri = this
    show ?thesis
    proof (cases "in_int (c - msg_counter st)")
      case False
      with \<open>recvmsg e (Suc (nat i)) = Some d\<close> ri sc show ?thesis
        by (simp add: loop_body_def)
    next
      case True
      let ?st3 = "integrity_check c (size_check cfg d st)"
      have "pool_ok ?st3" using sc by (rule pool_ok_fields) (simp_all add: integrity_check_def)
      then have d4: "pool_ok (snd (dispatch cfg e i d ?st3))" by (rule pool_ok_dispatch)
      obtain s4 st4 where d: "dispatch cfg e i d ?st3 = (s4, st4)" by (cases "dispatch cfg e i d ?st3")
      with d4 have p4: "pool_ok st4" by simp
      then have p5: "pool_ok (snd (count_and_report cfg e i st4))"
        by (rule pool_ok_count_and_report)
      have "loop_body cfg e i st =
        (case s4 of Running \<Rightarrow> count_and_report cfg e i st4
         | Returned c \<Rightarrow> (Returned c, st4) | Undefined u \<Rightarrow> (Undefined u, st4))"
        using \<open>recvmsg e (Suc (nat i)) = Some d\<close> ri True d
        by (simp add: loop_body_def split: status.split)
      with p4 p5 show ?thesis by (simp split: status.split)
    qed
  qed
qed

lemma pool_ok_receive_loop:
  "pool_ok st \<Longrightarrow> pool_ok (snd (snd (receive_loop cfg e i st)))"
proof (induction cfg e i st rule: receive_loop.induct)
  case (1 cfg e i st)
  obtain s1 st1 where b: "loop_body cfg e i st = (s1, st1)" by (cases "loop_body cfg e i st")
  have p1: "pool_ok st1" using pool_ok_loop_body [OF "1.prems", of cfg e i] b by simp
  show ?case
  proof (cases "message_count cfg = INT_MIN \<or> i = message_count cfg - 1")
    case True
    then show ?thesis using "1.prems"
      by (subst receive_loop.simps) auto
  next
    case False
    show ?thesis
    proof (cases "s1 = Running \<and> \<not> INT_MAX \<le> i")
      case True
      with False b "1.IH" p1
      have "pool_ok (snd (snd (receive_loop cfg e (i + 1) st1)))" by simp
      with True False b show ?thesis
        by (subst receive_loop.simps) simp
    next
      case nr: False
      with False b p1 show ?thesis
        by (subst receive_loop.simps) (auto split: status.split)
    qed
  qed
qed

lemma pool_ok_entry: "pool_ok (loop_entry e c out)"
  by (simp add: pool_ok_def slots_ok_def loop_entry_def start_state_def reuse_ok_def)

lemma trace_report: "trace (snd (report cfg e st)) = trace st"
  by (auto simp: report_def Let_def split: sum.split)

lemma trace_setup_failure: "trace (snd (setup_failure e out what)) = []"
  by (simp add: setup_failure_def start_state_def)

lemma trace_after_loop: "trace (snd (after_loop cfg e r)) = trace (snd (snd r))"
  by (cases r) (simp add: after_loop_def trace_report split: status.split)

lemma reuse_ok_Nil: "reuse_ok []"
  by (simp add: reuse_ok_def)

lemma reuse_ok_receive_loop:
  "reuse_ok (trace (snd (snd (receive_loop cfg e 0 (loop_entry e c out)))))"
  using pool_ok_receive_loop [OF pool_ok_entry]
  by (simp add: pool_ok_def slots_ok_def)

lemma reuse_ok_receive_all: "reuse_ok (trace (snd (receive_all cfg e out)))"
  by (simp add: receive_all_def trace_setup_failure trace_after_loop reuse_ok_receive_loop
      reuse_ok_Nil start_state_def split: option.split)

lemma reuse_ok_run: "reuse_ok (trace (snd (run cfg e argv)))"
  by (simp add: run_def Let_def trace_setup_failure reuse_ok_receive_all reuse_ok_Nil)

lemma reuse_ok_main: "reuse_ok (trace (snd (main e argv)))"
  by (simp add: main_def reuse_ok_run reuse_ok_Nil start_state_def split: option.split)

subsection \<open>No aggregate line before the report\<close>

lemma agg_run_thread:
  "filter is_aggregate (stdout (run_thread cfg e t st)) = filter is_aggregate (stdout st)"
  by (simp add: run_thread_def file_writer_def release_def Let_def is_aggregate_def
      split: option.split)

lemma agg_schedule:
  "filter is_aggregate (stdout (schedule cfg e ts st)) = filter is_aggregate (stdout st)"
  unfolding schedule_def
  by (induction ts arbitrary: st) (simp_all add: agg_run_thread)

lemma agg_dispatch:
  "filter is_aggregate (stdout (snd (dispatch cfg e i d st))) = filter is_aggregate (stdout st)"
proof (cases "no_threads cfg = 0 \<or> c_mod i (no_threads cfg) < 0
      \<or> MAX_THREADS \<le> c_mod i (no_threads cfg)")
  case True
  then show ?thesis by (simp only: dispatch_error) simp
next
  case False
  then have "dispatch cfg e i d st =
    (Running, pthread_create (nat (c_mod i (no_threads cfg))) (Suc (nat i))
       \<lparr>ptr = nat i, payload = d\<rparr>
       (if file_writer_thread st ! nat (c_mod i (no_threads cfg)) \<noteq> 0
        then pthread_join cfg e (file_writer_thread st ! nat (c_mod i (no_threads cfg)))
               (st\<lparr>allocated := insert (nat i) (allocated st)\<rparr>)
        else st\<lparr>allocated := insert (nat i) (allocated st)\<rparr>))"
    by (intro dispatch_ok_eq) simp_all
  then show ?thesis
    by (simp add: pthread_create_def pthread_join_def Let_def agg_run_thread)
qed

lemma agg_interval_report:
  "filter is_aggregate (stdout (snd (interval_report cfg e i st))) =
   filter is_aggregate (stdout st)"
  by (cases "throughput_of 1000 (stopwatch_1000 e (nat i))")
    (simp_all add: interval_report_def is_aggregate_def)

lemma agg_count_and_report:
  "filter is_aggregate (stdout (snd (count_and_report cfg e i st))) =
   filter is_aggregate (stdout st)"
  unfolding count_and_report_def Let_def
  by (simp add: agg_schedule agg_interval_report split: if_split)

lemma agg_size_check:
  "filter is_aggregate (stdout (size_check cfg d st)) = filter is_aggregate (stdout st)"
  by (simp add: size_check_def is_aggregate_def)

lemma agg_integrity_check:
  "filter is_aggregate (stdout (integrity_check c st)) = filter is_aggregate (stdout st)"
  by (simp add: integrity_check_def is_aggregate_def)

lemma agg_loop_body:
  "filter is_aggregate (stdout (snd (loop_body cfg e i st))) = filter is_aggregate (stdout st)"
proof (cases "recvmsg e (Suc (nat i))")
  case None
  then show ?thesis by (simp add: loop_body_def is_aggregate_def)
next
  case (Some d)
  note rc = this
  show ?thesis
  proof (cases "read_int d")
    case None
    with rc show ?thesis by (simp add: loop_body_def agg_size_check)
  next
    case (Some c)
    show ?thesis
    proof (cases "in_int (c - msg_counter st)")
      case False
      with rc Some show ?thesis by (simp add: loop_body_def agg_size_check)
    next
      case True
      let ?st3 = "integrity_check c (size_check cfg d st)"
      obtain s4 st4 where d: "dispatch cfg e i d ?st3 = (s4, st4)"
        by (cases "dispatch cfg e i d ?st3")
      have a4: "filter is_aggregate (stdout st4) = filter is_aggregate (stdout st)"
        using agg_dispatch [of cfg e i d ?st3] d
        by (simp add: agg_integrity_check agg_size_check)
      have "loop_body cfg e i st =
        (case s4 of Running \<Rightarrow> count_and_report cfg e i st4
         | Returned c \<Rightarrow> (Returned c, st4) | Undefined u \<Rightarrow> (Undefined u, st4))"
        using rc Some True d by (simp add: loop_body_def split: status.split)
      then show ?thesis
        using a4 by (simp add: agg_count_and_report split: status.split)
    qed
  qed
qed

lemma agg_receive_loop:
  "filter is_aggregate (stdout (snd (snd (receive_loop cfg e i st)))) =
   filter is_aggregate (stdout st)"
proof (induction cfg e i st rule: receive_loop.induct)
  case (1 cfg e i st)
  obtain s1 st1 where b: "loop_body cfg e i st = (s1, st1)" by (cases "loop_body cfg e i st")
  have a1: "filter is_aggregate (stdout st1) = filter is_aggregate (stdout st)"
    using agg_loop_body [of cfg e i st] b by simp
  show ?case
  proof (cases "message_count cfg = INT_MIN \<or> i = message_count cfg - 1")
    case True
    then show ?thesis by (subst receive_loop.simps) auto
  next
    case False
    show ?thesis
    proof (cases "s1 = Running \<and> \<not> INT_MAX \<le> i")
      case True
      with False b "1.IH" a1
      have "filter is_aggregate (stdout (snd (snd (receive_loop cfg e (i + 1) st1)))) =
          filter is_aggregate (stdout st)" by simp
      with True False b show ?thesis
        by (subst receive_loop.simps) simp
    next
      case nr: False
      with False b a1 show ?thesis
        by (subst receive_loop.simps) (auto split: status.split)
    qed
  qed
qed

lemma no_exit_without_messages:
  assumes "message_count cfg \<le> 0"
  shows "fst (receive_loop cfg e 0 st) \<noteq> Running"
proof
  assume "fst (receive_loop cfg e 0 st) = Running"
  then obtain j st' where "receive_loop cfg e 0 st = (Running, j, st')"
    by (cases "receive_loop cfg e 0 st") auto
  from receive_loop_exit [OF this] assms show False by simp
qed

lemma agg_receive_all:
  assumes "message_count cfg \<le> 0" "filter is_aggregate out = []"
  shows "filter is_aggregate (stdout (snd (receive_all cfg e out))) = []"
proof (cases "recvmsg e 0")
  case None
  with assms(2) show ?thesis
    by (simp add: receive_all_def setup_failure_def is_aggregate_def)
next
  case (Some d)
  note rc = this
  show ?thesis
  proof (cases "read_int d")
    case None
    with rc assms(2) show ?thesis
      by (simp add: receive_all_def is_aggregate_def)
  next
    case (Some c)
    define out1 where "out1 = (if of_nat (length d) \<noteq> message_size cfg
        then out @ [IncorrectSize (int (length d))] else out)"
    obtain s j st where r: "receive_loop cfg e 0 (loop_entry e c out1) = (s, j, st)"
      by (cases "receive_loop cfg e 0 (loop_entry e c out1)")
    have "s \<noteq> Running"
      using no_exit_without_messages [OF assms(1), of e "loop_entry e c out1"] r by simp
    then have "snd (after_loop cfg e (s, j, st)) = st"
      by (cases s) (simp_all add: after_loop_def)
    moreover have "filter is_aggregate (stdout st) = []"
      using agg_receive_loop [of cfg e 0 "loop_entry e c out1"] r assms(2)
      by (simp add: loop_entry_def out1_def is_aggregate_def)
    ultimately show ?thesis
      using rc Some r by (simp add: receive_all_def out1_def)
  qed
qed

lemma agg_run:
  assumes "message_count cfg \<le> 0"
  shows "filter is_aggregate (stdout (snd (run cfg e argv))) = []"
proof -
  have h: "filter is_aggregate
     [Header (hostname e) (argv ! 4) (argv ! 1) (argv ! 2) (argv ! 3) (no_threads cfg)] = []"
    by (simp add: is_aggregate_def)
  show ?thesis
    unfolding run_def Let_def
    using agg_receive_all [OF assms h, of e]
    by (simp add: setup_failure_def is_aggregate_def)
qed

subsection \<open>The status of an iteration\<close>

lemma dispatch_status:
  "fst (dispatch cfg e i d st) = fst (dispatch cfg e i d st')"
  by (simp add: dispatch_def Let_def)

lemma dispatch_thread_ctr:
  "thread_ctr (snd (dispatch cfg e i d st)) = thread_ctr st"
proof (cases "no_threads cfg = 0 \<or> c_mod i (no_threads cfg) < 0
      \<or> MAX_THREADS \<le> c_mod i (no_threads cfg)")
  case True
  then show ?thesis by (simp only: dispatch_error) simp
next
  case False
  then obtain st' where "dispatch cfg e i d st = (Running, st')"
    by (simp add: dispatch_def Let_def)
  then show ?thesis using dispatch_Running(1) by fastforce
qed

lemma count_and_report_status:
  "thread_ctr st = thread_ctr st' \<Longrightarrow>
   fst (count_and_report cfg e i st) = fst (count_and_report cfg e i st')"
  by (simp add: count_and_report_def Let_def schedule_keeps interval_report_def
      split: sum.split)

lemma loop_body_status:
  assumes rc: "recvmsg e (Suc (nat i)) = Some d" and ri: "read_int d = Some cur"
    and a: "in_int (cur - msg_counter st)" and b: "in_int (cur - msg_counter st')"
    and t: "thread_ctr st = thread_ctr st'"
  shows "fst (loop_body cfg e i st) = fst (loop_body cfg e i st')"
proof -
  let ?a = "integrity_check cur (size_check cfg d st)"
  let ?b = "integrity_check cur (size_check cfg d st')"
  obtain s4 st4 where d: "dispatch cfg e i d ?a = (s4, st4)" by (cases "dispatch cfg e i d ?a")
  obtain s4' st4' where d': "dispatch cfg e i d ?b = (s4', st4')"
    by (cases "dispatch cfg e i d ?b")
  have s: "s4 = s4'" using dispatch_status [of cfg e i d ?a ?b] d d' by simp
  have "thread_ctr st4 = thread_ctr st4'"
    using dispatch_thread_ctr [of cfg e i d ?a] dispatch_thread_ctr [of cfg e i d ?b] d d' t
    by (simp add: integrity_check_keeps size_check_keeps)
  then have c: "fst (count_and_report cfg e i st4) = fst (count_and_report cfg e i st4')"
    by (rule count_and_report_status)
  have "fst (loop_body cfg e i st) =
      (case s4 of Running \<Rightarrow> fst (count_and_report cfg e i st4) | x \<Rightarrow> x)"
    using rc ri a d by (simp add: loop_body_def split: status.split)
  moreover have "fst (loop_body cfg e i st') =
      (case s4' of Running \<Rightarrow> fst (count_and_report cfg e i st4') | x \<Rightarrow> x)"
    using rc ri b d' by (simp add: loop_body_def split: status.split)
  ultimately show ?thesis using s c by (cases s4') simp_all
qed



subsection \<open>The rates of a report\<close>

lemma megabytes_bounds:
  "of_int (uint (t * msize)) / 1000000 * (1 - 1 / 2 ^ 51) \<le> megabytes_of t msize"
  "megabytes_of t msize \<le> of_int (uint (t * msize)) / 1000000 * (1 + 1 / 2 ^ 51)"
proof -
  define x :: rat where "x = of_int (uint (t * msize))"
  define a where "a = fl x"
  define v where "v = 1 - ulp_rel"
  define w where "w = 1 + ulp_rel"
  have x0: "0 \<le> x" unfolding x_def by (simp only: of_int_0_le_iff uint_ge_0)
  have vw: "0 \<le> v" "0 \<le> w" using ulp_rel_facts(1,2) by (simp_all add: v_def w_def)
  have a_lo: "x * v \<le> a" and a_hi: "a \<le> x * w"
    unfolding a_def v_def w_def using x0 by (rule fl_bounds)+
  have a0: "0 \<le> a"
  proof -
    have "0 \<le> x * v" using x0 vw by (intro mult_nonneg_nonneg)
    with a_lo show ?thesis by simp
  qed
  then have q0: "0 \<le> a / 1000000" by simp
  have m: "megabytes_of t msize = fl (a / 1000000)"
    unfolding megabytes_of_def a_def x_def ..
  have m_lo: "a / 1000000 * v \<le> megabytes_of t msize"
    and m_hi: "megabytes_of t msize \<le> a / 1000000 * w"
    unfolding m v_def w_def using q0 by (rule fl_bounds)+
  have y0: "0 \<le> x / 1000000" using x0 by simp
  have "a / 1000000 * w \<le> x * w / 1000000 * w"
    using a_hi vw by (intro mult_right_mono divide_right_mono) simp_all
  also have "\<dots> = x / 1000000 * (w * w)" by simp
  also have "\<dots> \<le> x / 1000000 * (1 + 1 / 2 ^ 51)"
    using ulp_rel_facts(5) y0 unfolding w_def by (intro mult_left_mono)
  finally have "megabytes_of t msize \<le> x / 1000000 * (1 + 1 / 2 ^ 51)"
    using m_hi by simp
  then show "megabytes_of t msize \<le> of_int (uint (t * msize)) / 1000000 * (1 + 1 / 2 ^ 51)"
    unfolding x_def .
  have "x / 1000000 * (1 - 1 / 2 ^ 51) \<le> x / 1000000 * (v * v)"
    using ulp_rel_facts(6) y0 unfolding v_def by (intro mult_left_mono)
  also have "\<dots> = x * v / 1000000 * v" by simp
  also have "\<dots> \<le> a / 1000000 * v"
    using a_lo vw by (intro mult_right_mono divide_right_mono) simp_all
  finally have "x / 1000000 * (1 - 1 / 2 ^ 51) \<le> megabytes_of t msize"
    using m_lo by simp
  then show "of_int (uint (t * msize)) / 1000000 * (1 - 1 / 2 ^ 51) \<le> megabytes_of t msize"
    unfolding x_def .
qed

lemma fl_scale8_nonneg:
  assumes "0 \<le> x"
  shows "fl (8 * x) = 8 * fl x"
proof (cases "x = 0")
  case True
  then show ?thesis by (simp add: fl_def)
next
  case False
  with assms have "0 < x" by simp
  then show ?thesis by (rule fl_scale8)
qed

lemma megabits_eight:
  assumes "uint (t * msize * 8) = 8 * uint (t * msize)"
  shows "megabits_of t msize = 8 * megabytes_of t msize"
proof -
  define x :: rat where "x = of_int (uint (t * msize))"
  have x0: "0 \<le> x" unfolding x_def by (simp only: of_int_0_le_iff uint_ge_0)
  have "0 \<le> x * (1 - ulp_rel)" using x0 ulp_rel_facts(1,2) by (intro mult_nonneg_nonneg) simp_all
  with fl_bounds(1) [OF x0] have a0: "0 \<le> fl x" by simp
  have "(of_int (uint (t * msize * 8)) :: rat) = 8 * x"
    unfolding assms x_def by (simp only: of_int_mult of_int_numeral)
  then have "megabits_of t msize = fl (fl (8 * x) / 1000000)"
    unfolding megabits_of_def by (simp only:)
  also have "fl (8 * x) = 8 * fl x" using x0 by (rule fl_scale8_nonneg)
  also have "8 * fl x / 1000000 = 8 * (fl x / 1000000)" by simp
  also have "fl (8 * (fl x / 1000000)) = 8 * fl (fl x / 1000000)"
    using a0 by (intro fl_scale8_nonneg) simp
  finally show ?thesis unfolding megabytes_of_def x_def .
qed

lemma throughput_truncated:
  assumes c: "0 \<le> count" "count \<le> INT_MAX" and e: "elapsed \<noteq> 0"
  shows "\<exists>t. throughput_of count elapsed = Inr t \<and> uint t = \<lfloor>rate count elapsed\<rfloor>
     \<and> of_int count * 1000000 / of_int (uint elapsed) * (1 - 1 / 2 ^ 51) - 1
          < (of_int (uint t) :: rat)
     \<and> (of_int (uint t) :: rat)
          \<le> of_int count * 1000000 / of_int (uint elapsed) * (1 + 1 / 2 ^ 51)"
proof -
  define t :: "64 word" where "t = word_of_int \<lfloor>rate count elapsed\<rfloor>"
  have 1: "throughput_of count elapsed = Inr t" and 2: "uint t = \<lfloor>rate count elapsed\<rfloor>"
    unfolding t_def by (rule throughput_of_defined [OF c e])+
  have "(of_int \<lfloor>rate count elapsed\<rfloor> :: rat) \<le> rate count elapsed" by simp
  also note rate_bounds(2) [OF c(1) e]
  finally have hi: "(of_int (uint t) :: rat)
      \<le> of_int count * 1000000 / of_int (uint elapsed) * (1 + 1 / 2 ^ 51)"
    unfolding 2 .
  have "rate count elapsed - 1 < of_int \<lfloor>rate count elapsed\<rfloor>" by linarith
  with rate_bounds(1) [OF c(1) e]
  have lo: "of_int count * 1000000 / of_int (uint elapsed) * (1 - 1 / 2 ^ 51) - 1
      < (of_int (uint t) :: rat)"
    unfolding 2 by linarith
  from 1 2 lo hi show ?thesis by blast
qed

subsection \<open>The worker\<close>

text \<open>
  C9. With the disk path \<^verbatim>\<open>/network\<close> the worker performs no file-system
  operation at all: nothing is opened, written or created and nothing is
  printed; the only effect is that the message buffer it owns is released.
\<close>

theorem C9_network_no_filesystem:
  "file_writer ok ''/network'' msg st = st\<lparr>allocated := allocated st - {ptr msg}\<rparr>
   \<and> fs_log (file_writer ok ''/network'' msg st) = fs_log st
   \<and> files (file_writer ok ''/network'' msg st) = files st
   \<and> stdout (file_writer ok ''/network'' msg st) = stdout st
   \<and> ptr msg \<notin> allocated (file_writer ok ''/network'' msg st)"
  by (simp add: file_writer_def release_def)

text \<open>
  C4 (the code departs from the claim). When \<^verbatim>\<open>fopen\<close> fails the worker
  prints the failure and returns at once: the message buffer it owns is still
  allocated when it terminates. In a run in which no file can be opened, the
  first worker has run and has been joined, and its buffer (address 0) is
  still allocated at the end.
\<close>

theorem C4_open_failure_keeps_buffer:
  "allocated (file_writer (\<lambda>_. False) ''/mnt'' msg st) = allocated st
   \<and> stdout (file_writer (\<lambda>_. False) ''/mnt'' msg st) =
       stdout st @ [OpenFailed (''/mnt/data/test'' @ fmt_06d (thread_ctr st) @ ''.dat'')]
   \<and> trace (snd (main (sample_env (counted [0, 1, 2]) (\<lambda>_. False) (\<lambda>_. []))
         [''local_thr'', ''tcp://*:5555'', ''5'', ''3'', ''/mnt''])) =
       [Create 0 1 0, Run 1, Join 1, Create 0 2 1]
   \<and> 0 \<in> allocated (snd (main (sample_env (counted [0, 1, 2]) (\<lambda>_. False) (\<lambda>_. []))
         [''local_thr'', ''tcp://*:5555'', ''5'', ''3'', ''/mnt'']))"
proof (intro conjI)
  show "allocated (file_writer (\<lambda>_. False) ''/mnt'' msg st) = allocated st"
    by (simp add: file_writer_def Let_def)
  show "stdout (file_writer (\<lambda>_. False) ''/mnt'' msg st) =
       stdout st @ [OpenFailed (''/mnt/data/test'' @ fmt_06d (thread_ctr st) @ ''.dat'')]"
    by (simp add: file_writer_def Let_def)
  show "trace (snd (main (sample_env (counted [0, 1, 2]) (\<lambda>_. False) (\<lambda>_. []))
         [''local_thr'', ''tcp://*:5555'', ''5'', ''3'', ''/mnt''])) =
       [Create 0 1 0, Run 1, Join 1, Create 0 2 1]"
    by code_simp
  show "0 \<in> allocated (snd (main (sample_env (counted [0, 1, 2]) (\<lambda>_. False) (\<lambda>_. []))
         [''local_thr'', ''tcp://*:5555'', ''5'', ''3'', ''/mnt'']))"
    by code_simp
qed

text \<open>
  C3 (the code departs from the claim). The worker formats the file name
  from the value that the shared \<open>thread_ctr\<close> has when the worker runs.
  Two messages are dispatched to two threads. When each worker runs right
  after its \<^verbatim>\<open>pthread_create\<close>, the files are \<^verbatim>\<open>test000000.dat\<close> and
  \<^verbatim>\<open>test000001.dat\<close>. When both run after the second \<^verbatim>\<open>thread_ctr++\<close>,
  both write \<^verbatim>\<open>test000002.dat\<close>: the second payload replaces the first and
  no other file exists.
\<close>

theorem C3_file_name_follows_schedule:
  "fs_log (snd (main
      (sample_env (counted [0, 1, 2]) (\<lambda>_. True) (\<lambda>p. if p = 0 then [1] else if p = 2 then [2] else []))
      [''local_thr'', ''tcp://*:5555'', ''5'', ''3'', ''/mnt'', ''2''])) =
     [FOpen ''/mnt/data/test000000.dat'' True,
      FWrite ''/mnt/data/test000000.dat'' [1, 0, 0, 0, 170],
      FClose ''/mnt/data/test000000.dat'',
      FOpen ''/mnt/data/test000001.dat'' True,
      FWrite ''/mnt/data/test000001.dat'' [2, 0, 0, 0, 170],
      FClose ''/mnt/data/test000001.dat'']
   \<and> fs_log (snd (main
      (sample_env (counted [0, 1, 2]) (\<lambda>_. True) (\<lambda>p. if p = 3 then [1, 2] else []))
      [''local_thr'', ''tcp://*:5555'', ''5'', ''3'', ''/mnt'', ''2''])) =
     [FOpen ''/mnt/data/test000002.dat'' True,
      FWrite ''/mnt/data/test000002.dat'' [1, 0, 0, 0, 170],
      FClose ''/mnt/data/test000002.dat'',
      FOpen ''/mnt/data/test000002.dat'' True,
      FWrite ''/mnt/data/test000002.dat'' [2, 0, 0, 0, 170],
      FClose ''/mnt/data/test000002.dat'']
   \<and> files (snd (main
      (sample_env (counted [0, 1, 2]) (\<lambda>_. True) (\<lambda>p. if p = 3 then [1, 2] else []))
      [''local_thr'', ''tcp://*:5555'', ''5'', ''3'', ''/mnt'', ''2'']))
        ''/mnt/data/test000002.dat'' = Some [2, 0, 0, 0, 170]
   \<and> files (snd (main
      (sample_env (counted [0, 1, 2]) (\<lambda>_. True) (\<lambda>p. if p = 3 then [1, 2] else []))
      [''local_thr'', ''tcp://*:5555'', ''5'', ''3'', ''/mnt'', ''2'']))
        ''/mnt/data/test000000.dat'' = None"
proof (intro conjI)
  show "fs_log (snd (main
      (sample_env (counted [0, 1, 2]) (\<lambda>_. True) (\<lambda>p. if p = 0 then [1] else if p = 2 then [2] else []))
      [''local_thr'', ''tcp://*:5555'', ''5'', ''3'', ''/mnt'', ''2''])) =
     [FOpen ''/mnt/data/test000000.dat'' True,
      FWrite ''/mnt/data/test000000.dat'' [1, 0, 0, 0, 170],
      FClose ''/mnt/data/test000000.dat'',
      FOpen ''/mnt/data/test000001.dat'' True,
      FWrite ''/mnt/data/test000001.dat'' [2, 0, 0, 0, 170],
      FClose ''/mnt/data/test000001.dat'']"
    by code_simp
  show "fs_log (snd (main
      (sample_env (counted [0, 1, 2]) (\<lambda>_. True) (\<lambda>p. if p = 3 then [1, 2] else []))
      [''local_thr'', ''tcp://*:5555'', ''5'', ''3'', ''/mnt'', ''2''])) =
     [FOpen ''/mnt/data/test000002.dat'' True,
      FWrite ''/mnt/data/test000002.dat'' [1, 0, 0, 0, 170],
      FClose ''/mnt/data/test000002.dat'',
      FOpen ''/mnt/data/test000002.dat'' True,
      FWrite ''/mnt/data/test000002.dat'' [2, 0, 0, 0, 170],
      FClose ''/mnt/data/test000002.dat'']"
    by code_simp
  show "files (snd (main
      (sample_env (counted [0, 1, 2]) (\<lambda>_. True) (\<lambda>p. if p = 3 then [1, 2] else []))
      [''local_thr'', ''tcp://*:5555'', ''5'', ''3'', ''/mnt'', ''2'']))
        ''/mnt/data/test000002.dat'' = Some [2, 0, 0, 0, 170]"
    by code_simp
  show "files (snd (main
      (sample_env (counted [0, 1, 2]) (\<lambda>_. True) (\<lambda>p. if p = 3 then [1, 2] else []))
      [''local_thr'', ''tcp://*:5555'', ''5'', ''3'', ''/mnt'', ''2'']))
        ''/mnt/data/test000000.dat'' = None"
    by code_simp
qed

subsection \<open>Configuration\<close>

text \<open>
  C5 (the code departs from the claim). A thread count of 0 on the command
  line is not rejected: the configuration is built with \<open>no_threads = 0\<close>,
  the header is printed, and the run goes on into the loop, where the first
  \<^verbatim>\<open>i % no_threads\<close> is a remainder by zero.
\<close>

theorem C5_zero_threads_accepted:
  "parse_args [''local_thr'', ''tcp://*:5555'', ''5'', ''3'', ''/mnt'', ''0''] =
     Some \<lparr>bind_to = ''tcp://*:5555'', message_size = 5, message_count = 3,
           disk_name = ''/mnt'', no_threads = 0\<rparr>
   \<and> fst (main (sample_env (counted [0, 1, 2]) (\<lambda>_. True) (\<lambda>_. []))
         [''local_thr'', ''tcp://*:5555'', ''5'', ''3'', ''/mnt'', ''0'']) =
       Undefined ModuloByZero
   \<and> stdout (snd (main (sample_env (counted [0, 1, 2]) (\<lambda>_. True) (\<lambda>_. []))
         [''local_thr'', ''tcp://*:5555'', ''5'', ''3'', ''/mnt'', ''0''])) =
       [Header ''host'' ''/mnt'' ''tcp://*:5555'' ''5'' ''3'' 0, MeanHeader]"
proof (intro conjI)
  show "parse_args [''local_thr'', ''tcp://*:5555'', ''5'', ''3'', ''/mnt'', ''0''] =
     Some \<lparr>bind_to = ''tcp://*:5555'', message_size = 5, message_count = 3,
           disk_name = ''/mnt'', no_threads = 0\<rparr>"
    by code_simp
  show "fst (main (sample_env (counted [0, 1, 2]) (\<lambda>_. True) (\<lambda>_. []))
         [''local_thr'', ''tcp://*:5555'', ''5'', ''3'', ''/mnt'', ''0'']) =
       Undefined ModuloByZero"
    by code_simp
  show "stdout (snd (main (sample_env (counted [0, 1, 2]) (\<lambda>_. True) (\<lambda>_. []))
         [''local_thr'', ''tcp://*:5555'', ''5'', ''3'', ''/mnt'', ''0''])) =
       [Header ''host'' ''/mnt'' ''tcp://*:5555'' ''5'' ''3'' 0, MeanHeader]"
    by code_simp
qed

subsection \<open>The reports\<close>

text \<open>
  C8. An elapsed time of 0 microseconds for the whole run is replaced by 1
  before the aggregate throughput is computed: the aggregate computation at 0
  is the computation at 1, and for no elapsed time at all does it divide by
  zero.
\<close>

theorem C8_aggregate_never_divides_by_zero:
  "aggregate_elapsed 0 = 1
   \<and> aggregate_elapsed elapsed \<noteq> 0
   \<and> aggregate_throughput cfg 0 = throughput_of (message_count cfg) 1
   \<and> aggregate_throughput cfg elapsed \<noteq> Inl FloatDivisionByZero
   \<and> fst (report cfg e st) \<noteq> Undefined FloatDivisionByZero"
proof (intro conjI)
  show "aggregate_elapsed 0 = 1"
    by (simp add: aggregate_elapsed_def)
  show nz: "aggregate_elapsed elapsed \<noteq> 0"
    by (simp add: aggregate_elapsed_def)
  show "aggregate_throughput cfg 0 = throughput_of (message_count cfg) 1"
    by (simp add: aggregate_throughput_def aggregate_elapsed_def)
  show ndz: "aggregate_throughput cfg elapsed \<noteq> Inl FloatDivisionByZero" for elapsed
    by (simp add: aggregate_throughput_def throughput_of_def aggregate_elapsed_def
        split: option.split)
  show "fst (report cfg e st) \<noteq> Undefined FloatDivisionByZero"
    using ndz [of "stopwatch_total e"]
    by (auto simp: report_def Let_def split: sum.split)
qed

subsection \<open>The worker pool\<close>

text \<open>
  C1. In every run, with every scheduler: when two threads are created in the
  same slot, the body of the earlier one runs and the join of the earlier one
  returns between the two creations, in this order. A dispatch into an
  occupied slot joins the occupant before it creates the new thread.
\<close>

theorem C1_join_before_reuse:
  assumes "trace (snd (main e argv)) = A @ Create s t m # B @ Create s t' m' # C"
  shows "\<exists>B1 B2 B3. B = B1 @ Run t # B2 @ Join t # B3"
  using reuse_ok_main [of e argv] assms
  unfolding reuse_ok_def ran_and_joined_def by blast

theorem C1_join_before_reuse_witness:
  "trace (snd (main (sample_env (counted [0, 1, 2, 3]) (\<lambda>_. True) (\<lambda>_. []))
       [''local_thr'', ''tcp://*:5555'', ''5'', ''4'', ''/mnt'']))
     = [] @ Create 0 1 0 # [Run 1, Join 1] @ Create 0 2 1 # [Run 2, Join 2, Create 0 3 2]
   \<and> (\<exists>B1 B2 B3. [Run 1, Join 1] = B1 @ Run 1 # B2 @ Join 1 # B3)"
proof -
  have h: "trace (snd (main (sample_env (counted [0, 1, 2, 3]) (\<lambda>_. True) (\<lambda>_. []))
       [''local_thr'', ''tcp://*:5555'', ''5'', ''4'', ''/mnt'']))
     = [] @ Create 0 1 0 # [Run 1, Join 1] @ Create 0 2 1 # [Run 2, Join 2, Create 0 3 2]"
    by code_simp
  from C1_join_before_reuse [OF h] h show ?thesis by blast
qed


text \<open>
  C2. When the loop is left through its condition, \<open>thread_ctr\<close> is
  \<open>message_count - 1\<close>, and this is the number of threads created: the
  first message is received before the loop and is not dispatched. With a
  message count of at least 1, a thread count from 1 to 10, a transport that
  delivers the messages and interval timers that do not read 0, the loop is
  left in this way.
\<close>

theorem C2_dispatched_workers:
  "(receive_loop cfg e 0 (loop_entry e c out) = (Running, i, st) \<longrightarrow>
      thread_ctr st = message_count cfg - 1
      \<and> int (length (filter is_create (trace st))) = message_count cfg - 1)
   \<and> (1 \<le> message_count cfg \<and> message_count cfg \<le> INT_MAX
      \<and> 1 \<le> no_threads cfg \<and> no_threads cfg \<le> MAX_THREADS
      \<and> (\<forall>k. stopwatch_1000 e k \<noteq> 0)
      \<and> clean_stream e c 0 (nat (message_count cfg - 1)) \<longrightarrow>
      (\<exists>st'. receive_loop cfg e 0 (loop_entry e c out) = (Running, message_count cfg - 1, st')
         \<and> thread_ctr st' = message_count cfg - 1))"
proof (intro conjI impI)
  assume r: "receive_loop cfg e 0 (loop_entry e c out) = (Running, i, st)"
  from receive_loop_exit [OF r]
  show "thread_ctr st = message_count cfg - 1"
    and "int (length (filter is_create (trace st))) = message_count cfg - 1"
    by (simp_all add: loop_entry_def start_state_def)
next
  assume a: "1 \<le> message_count cfg \<and> message_count cfg \<le> INT_MAX
      \<and> 1 \<le> no_threads cfg \<and> no_threads cfg \<le> MAX_THREADS
      \<and> (\<forall>k. stopwatch_1000 e k \<noteq> 0)
      \<and> clean_stream e c 0 (nat (message_count cfg - 1))"
  let ?st = "loop_entry e c out"
  have n: "message_count cfg - 1 - 0 = int (nat (message_count cfg - 1))" using a by simp
  have t: "thread_ctr ?st = 0" by (simp add: loop_entry_def start_state_def)
  have cs: "clean_stream e (msg_counter ?st) (nat 0) (nat (message_count cfg - 1))"
    using a by (simp add: loop_entry_def start_state_def)
  from a have N: "1 \<le> no_threads cfg" "no_threads cfg \<le> MAX_THREADS"
    and mc: "message_count cfg \<le> INT_MAX" and sw: "\<forall>k. stopwatch_1000 e k \<noteq> 0"
    by simp_all
  from receive_loop_defined [OF N mc sw n _ t cs]
  obtain st' where r: "receive_loop cfg e 0 ?st = (Running, message_count cfg - 1, st')"
    by auto
  from receive_loop_exit [OF r] have "thread_ctr st' = message_count cfg - 1"
    by (simp add: loop_entry_def start_state_def)
  with r show "\<exists>st'. receive_loop cfg e 0 ?st = (Running, message_count cfg - 1, st')
         \<and> thread_ctr st' = message_count cfg - 1"
    by blast
qed

theorem C2_dispatched_workers_witness:
  "fst (receive_loop (sample_cfg 3 1 ''/network'')
       (sample_env (counted [0, 1, 2]) (\<lambda>_. True) (\<lambda>_. [])) 0
       (loop_entry (sample_env (counted [0, 1, 2]) (\<lambda>_. True) (\<lambda>_. [])) 0 [])) = Running
   \<and> thread_ctr (snd (snd (receive_loop (sample_cfg 3 1 ''/network'')
       (sample_env (counted [0, 1, 2]) (\<lambda>_. True) (\<lambda>_. [])) 0
       (loop_entry (sample_env (counted [0, 1, 2]) (\<lambda>_. True) (\<lambda>_. [])) 0 [])))) = 2
   \<and> clean_stream (sample_env (counted [0, 1, 2]) (\<lambda>_. True) (\<lambda>_. [])) 0 0 2
   \<and> (\<exists>st'. receive_loop (sample_cfg 3 1 ''/network'')
       (sample_env (counted [0, 1, 2]) (\<lambda>_. True) (\<lambda>_. [])) 0
       (loop_entry (sample_env (counted [0, 1, 2]) (\<lambda>_. True) (\<lambda>_. [])) 0 [])
         = (Running, 2, st') \<and> thread_ctr st' = 2)"
proof -
  let ?cfg = "sample_cfg 3 1 ''/network''"
  let ?e = "sample_env (counted [0, 1, 2]) (\<lambda>_. True) (\<lambda>_. [])"
  let ?r = "receive_loop ?cfg ?e 0 (loop_entry ?e 0 [])"
  have f: "fst ?r = Running" by code_simp
  then have eq: "?r = (Running, fst (snd ?r), snd (snd ?r))"
    by (cases ?r) simp
  have cs: "clean_stream ?e 0 0 2" by code_simp
  have mc: "message_count ?cfg = 3" "no_threads ?cfg = 1" by (simp_all add: sample_cfg_def)
  have sw: "\<forall>k. stopwatch_1000 ?e k \<noteq> 0" by (simp add: sample_env_def)
  note th = C2_dispatched_workers [of ?cfg ?e 0 "[]" "fst (snd ?r)" "snd (snd ?r)"]
  from th eq have 1: "thread_ctr (snd (snd ?r)) = 2" by (simp add: mc)
  have "nat (message_count ?cfg - 1) = 2" by (simp add: mc)
  with th cs sw have 2: "\<exists>st'. ?r = (Running, 2, st') \<and> thread_ctr st' = 2"
    by (simp add: mc INT_MAX_def MAX_THREADS_def)
  from f 1 cs 2 show ?thesis by blast
qed

text \<open>
  C7. The check of the counter prints the diagnostic, with the previous and
  the current counter, exactly when their difference is not 1, and does
  nothing else than record the current counter: the iteration ends as it
  would after a counter that passes the check. For the counters 0, 1, 2, 4, 5
  the run returns 0, all four messages after the first are dispatched, and
  the only diagnostic is the one for 2 and 4.
\<close>

theorem C7_integrity_check:
  "integrity_check cur st =
     (if cur - msg_counter st = 1 then st\<lparr>msg_counter := cur\<rparr>
      else st\<lparr>stdout := stdout st @ [DataCorrupt (msg_counter st) cur],
              msg_counter := cur\<rparr>)
   \<and> (recvmsg e (Suc (nat i)) = Some d \<and> read_int d = Some cur
        \<and> in_int (cur - msg_counter st) \<longrightarrow>
      fst (loop_body cfg e i st) = fst (loop_body cfg e i (st\<lparr>msg_counter := cur - 1\<rparr>)))
   \<and> fst (main (sample_env (counted [0, 1, 2, 4, 5]) (\<lambda>_. True) (\<lambda>_. []))
         [''local_thr'', ''tcp://*:5555'', ''5'', ''5'', ''/network'']) = Returned 0
   \<and> filter is_data_corrupt
        (stdout (snd (main (sample_env (counted [0, 1, 2, 4, 5]) (\<lambda>_. True) (\<lambda>_. []))
           [''local_thr'', ''tcp://*:5555'', ''5'', ''5'', ''/network'']))) = [DataCorrupt 2 4]
   \<and> length (filter is_create
        (trace (snd (main (sample_env (counted [0, 1, 2, 4, 5]) (\<lambda>_. True) (\<lambda>_. []))
           [''local_thr'', ''tcp://*:5555'', ''5'', ''5'', ''/network''])))) = 4"
proof (intro conjI impI)
  show "integrity_check cur st =
     (if cur - msg_counter st = 1 then st\<lparr>msg_counter := cur\<rparr>
      else st\<lparr>stdout := stdout st @ [DataCorrupt (msg_counter st) cur],
              msg_counter := cur\<rparr>)"
    by (simp add: integrity_check_def)
next
  assume a: "recvmsg e (Suc (nat i)) = Some d \<and> read_int d = Some cur
        \<and> in_int (cur - msg_counter st)"
  have "in_int (cur - msg_counter (st\<lparr>msg_counter := cur - 1\<rparr>))"
    by (simp add: in_int_def INT_MIN_def INT_MAX_def)
  with a show "fst (loop_body cfg e i st) =
      fst (loop_body cfg e i (st\<lparr>msg_counter := cur - 1\<rparr>))"
    by (intro loop_body_status [where d = d and cur = cur]) simp_all
next
  show "fst (main (sample_env (counted [0, 1, 2, 4, 5]) (\<lambda>_. True) (\<lambda>_. []))
         [''local_thr'', ''tcp://*:5555'', ''5'', ''5'', ''/network'']) = Returned 0"
    by code_simp
  show "filter is_data_corrupt
        (stdout (snd (main (sample_env (counted [0, 1, 2, 4, 5]) (\<lambda>_. True) (\<lambda>_. []))
           [''local_thr'', ''tcp://*:5555'', ''5'', ''5'', ''/network'']))) = [DataCorrupt 2 4]"
    by code_simp
  show "length (filter is_create
        (trace (snd (main (sample_env (counted [0, 1, 2, 4, 5]) (\<lambda>_. True) (\<lambda>_. []))
           [''local_thr'', ''tcp://*:5555'', ''5'', ''5'', ''/network''])))) = 4"
    by code_simp
qed

theorem C7_integrity_check_witness:
  "recvmsg (sample_env (counted [0, 1, 2, 4, 5]) (\<lambda>_. True) (\<lambda>_. [])) (Suc (nat 2))
     = Some [4, 0, 0, 0, 170]
   \<and> read_int [4, 0, 0, 0, 170] = Some 4
   \<and> in_int (4 - msg_counter
        (loop_entry (sample_env (counted [0, 1, 2, 4, 5]) (\<lambda>_. True) (\<lambda>_. [])) 2 []))
   \<and> fst (loop_body (sample_cfg 5 1 ''/network'')
        (sample_env (counted [0, 1, 2, 4, 5]) (\<lambda>_. True) (\<lambda>_. [])) 2
        (loop_entry (sample_env (counted [0, 1, 2, 4, 5]) (\<lambda>_. True) (\<lambda>_. [])) 2 []))
     = fst (loop_body (sample_cfg 5 1 ''/network'')
        (sample_env (counted [0, 1, 2, 4, 5]) (\<lambda>_. True) (\<lambda>_. [])) 2
        ((loop_entry (sample_env (counted [0, 1, 2, 4, 5]) (\<lambda>_. True) (\<lambda>_. [])) 2 [])
           \<lparr>msg_counter := 4 - 1\<rparr>))"
proof -
  let ?e = "sample_env (counted [0, 1, 2, 4, 5]) (\<lambda>_. True) (\<lambda>_. [])"
  have 1: "recvmsg ?e (Suc (nat 2)) = Some [4, 0, 0, 0, 170]" by code_simp
  have 2: "read_int [4, 0, 0, 0, 170] = Some 4" by code_simp
  have 3: "in_int (4 - msg_counter (loop_entry ?e 2 []))" by code_simp
  from C7_integrity_check [of 4 "loop_entry ?e 2 []" ?e 2 "[4, 0, 0, 0, 170]"
      "sample_cfg 5 1 ''/network''"] 1 2 3
  show ?thesis by blast
qed

subsection \<open>Termination of the loop\<close>

text \<open>
  C10. With a message count of 0 or less the loop is never left through its
  condition, whatever the environment does, and no line of the aggregate
  report is printed: the run ends in a failed receive or in undefined
  behaviour (the overflow of \<open>message_count - 1\<close>, of \<open>thread_ctr\<close> or of
  \<open>i\<close>). A loop left through its condition has a message count of at
  least 1 and has made \<open>message_count - 1\<close> iterations; with a message
  count of at least 1, a thread count from 1 to 10, a transport that delivers
  the messages and interval timers that do not read 0, the loop is left in
  this way.
\<close>

theorem C10_loop_exit:
  "(message_count cfg \<le> 0 \<longrightarrow>
      fst (receive_loop cfg e 0 st) \<noteq> Running
      \<and> filter is_aggregate (stdout (snd (run cfg e argv))) = [])
   \<and> (receive_loop cfg e 0 st = (Running, j, st') \<longrightarrow>
        1 \<le> message_count cfg \<and> j = message_count cfg - 1)
   \<and> (1 \<le> message_count cfg \<and> message_count cfg \<le> INT_MAX
      \<and> 1 \<le> no_threads cfg \<and> no_threads cfg \<le> MAX_THREADS
      \<and> (\<forall>k. stopwatch_1000 e k \<noteq> 0)
      \<and> thread_ctr st = 0
      \<and> clean_stream e (msg_counter st) 0 (nat (message_count cfg - 1)) \<longrightarrow>
      (\<exists>st'. receive_loop cfg e 0 st = (Running, message_count cfg - 1, st')))"
proof (intro conjI impI)
  assume "message_count cfg \<le> 0"
  then show "fst (receive_loop cfg e 0 st) \<noteq> Running"
    and "filter is_aggregate (stdout (snd (run cfg e argv))) = []"
    by (rule no_exit_without_messages, rule agg_run)
next
  assume "receive_loop cfg e 0 st = (Running, j, st')"
  from receive_loop_exit [OF this]
  show "1 \<le> message_count cfg" and "j = message_count cfg - 1" by simp_all
next
  assume a: "1 \<le> message_count cfg \<and> message_count cfg \<le> INT_MAX
      \<and> 1 \<le> no_threads cfg \<and> no_threads cfg \<le> MAX_THREADS
      \<and> (\<forall>k. stopwatch_1000 e k \<noteq> 0)
      \<and> thread_ctr st = 0
      \<and> clean_stream e (msg_counter st) 0 (nat (message_count cfg - 1))"
  have n: "message_count cfg - 1 - 0 = int (nat (message_count cfg - 1))" using a by simp
  from a have N: "1 \<le> no_threads cfg" "no_threads cfg \<le> MAX_THREADS"
    and mc: "message_count cfg \<le> INT_MAX" and sw: "\<forall>k. stopwatch_1000 e k \<noteq> 0"
    and t: "thread_ctr st = 0"
    and cs: "clean_stream e (msg_counter st) (nat 0) (nat (message_count cfg - 1))"
    by simp_all
  from receive_loop_defined [OF N mc sw n _ t cs]
  show "\<exists>st'. receive_loop cfg e 0 st = (Running, message_count cfg - 1, st')"
    by simp
qed

theorem C10_loop_exit_witness:
  "message_count (sample_cfg 0 1 ''/network'') \<le> 0
   \<and> fst (receive_loop (sample_cfg 0 1 ''/network'')
        (sample_env (counted [0, 1, 2]) (\<lambda>_. True) (\<lambda>_. [])) 0
        (loop_entry (sample_env (counted [0, 1, 2]) (\<lambda>_. True) (\<lambda>_. [])) 0 [])) \<noteq> Running
   \<and> fst (receive_loop (sample_cfg 0 1 ''/network'')
        (sample_env (counted [0, 1, 2]) (\<lambda>_. True) (\<lambda>_. [])) 0
        (loop_entry (sample_env (counted [0, 1, 2]) (\<lambda>_. True) (\<lambda>_. [])) 0 []))
       = Returned (- 1)
   \<and> clean_stream (sample_env (counted [0, 1, 2]) (\<lambda>_. True) (\<lambda>_. [])) 0 0 2
   \<and> (\<exists>st'. receive_loop (sample_cfg 3 1 ''/network'')
        (sample_env (counted [0, 1, 2]) (\<lambda>_. True) (\<lambda>_. [])) 0
        (loop_entry (sample_env (counted [0, 1, 2]) (\<lambda>_. True) (\<lambda>_. [])) 0 [])
          = (Running, 2, st'))"
proof -
  let ?e = "sample_env (counted [0, 1, 2]) (\<lambda>_. True) (\<lambda>_. [])"
  let ?st = "loop_entry ?e 0 []"
  have m0: "message_count (sample_cfg 0 1 ''/network'') \<le> 0" by (simp add: sample_cfg_def)
  from C10_loop_exit [of "sample_cfg 0 1 ''/network''" ?e ?st] m0
  have 1: "fst (receive_loop (sample_cfg 0 1 ''/network'') ?e 0 ?st) \<noteq> Running" by blast
  have 2: "fst (receive_loop (sample_cfg 0 1 ''/network'') ?e 0 ?st) = Returned (- 1)"
    by code_simp
  have cs: "clean_stream ?e 0 0 2" by code_simp
  have t: "thread_ctr ?st = 0" "msg_counter ?st = 0"
    by (simp_all add: loop_entry_def start_state_def)
  have mc: "message_count (sample_cfg 3 1 ''/network'') = 3"
    "no_threads (sample_cfg 3 1 ''/network'') = 1" by (simp_all add: sample_cfg_def)
  have sw: "\<forall>k. stopwatch_1000 ?e k \<noteq> 0" by (simp add: sample_env_def)
  have "nat (message_count (sample_cfg 3 1 ''/network'') - 1) = 2" by (simp add: mc)
  with C10_loop_exit [of "sample_cfg 3 1 ''/network''" ?e ?st] cs sw t
  have 3: "\<exists>st'. receive_loop (sample_cfg 3 1 ''/network'') ?e 0 ?st = (Running, 2, st')"
    by (simp add: mc INT_MAX_def MAX_THREADS_def)
  from m0 1 2 cs 3 show ?thesis by blast
qed

subsection \<open>The figures of a report\<close>

text \<open>
  C6, as the claim states it, fails: for 1000 messages in 1500 microseconds
  the program computes 666666, and rounding gives 666667.
\<close>

theorem C6_round_counterexample:
  "throughput_of 1000 1500 = Inr 666666
   \<and> round (1000 / 1500 * 1000000 :: rat) = 666667
   \<and> throughput_of 1000 1500 \<noteq> Inr (word_of_int (round (1000 / 1500 * 1000000 :: rat)))"
proof -
  have 1: "throughput_of 1000 1500 = Inr 666666" by code_simp
  have 2: "round (1000 / 1500 * 1000000 :: rat) = 666667" by code_simp
  have 3: "(666666 :: 64 word) \<noteq> word_of_int 666667" by simp
  from 1 2 3 show ?thesis by simp
qed

text \<open>
  C6, amended. The throughput is the double
  \<^verbatim>\<open>(double) count / (double) elapsed * 1000000\<close> with its fraction
  discarded by the conversion to \<^verbatim>\<open>unsigned long\<close>; for a count from 0 to
  \<open>INT_MAX\<close> and an elapsed time that is not 0 it is defined and lies
  between \<open>x * (1 - 2 ^ -51) - 1\<close> and \<open>x * (1 + 2 ^ -51)\<close>, where \<open>x\<close> is
  \<open>count * 1000000 / elapsed\<close>. The megabytes are the 64-bit product of
  throughput and message size, divided by 1000000 in doubles; the megabits
  are eight times the megabytes when the product times 8 does not wrap. The
  aggregate report takes the message count and the elapsed time of the run
  (1 for 0). For 1000 messages in 500000 microseconds of 100 bytes the
  figures are 2000, 0.200 and 1.600.
\<close>

theorem C6_throughput_truncated:
  "(0 \<le> count \<and> count \<le> INT_MAX \<and> elapsed \<noteq> 0 \<longrightarrow>
      (\<exists>t. throughput_of count elapsed = Inr t
         \<and> uint t = \<lfloor>fl (fl (of_int count / fl (of_int (uint elapsed))) * 1000000)\<rfloor>
         \<and> of_int count * 1000000 / of_int (uint elapsed) * (1 - 1 / 2 ^ 51) - 1
              < (of_int (uint t) :: rat)
         \<and> (of_int (uint t) :: rat)
              \<le> of_int count * 1000000 / of_int (uint elapsed) * (1 + 1 / 2 ^ 51)))
   \<and> of_int (uint (t * msize)) / 1000000 * (1 - 1 / 2 ^ 51) \<le> megabytes_of t msize
   \<and> megabytes_of t msize \<le> of_int (uint (t * msize)) / 1000000 * (1 + 1 / 2 ^ 51)
   \<and> (uint (t * msize * 8) = 8 * uint (t * msize) \<longrightarrow>
        megabits_of t msize = 8 * megabytes_of t msize)
   \<and> aggregate_throughput cfg whole =
        throughput_of (message_count cfg) (if whole = 0 then 1 else whole)
   \<and> throughput_of 1000 500000 = Inr 2000
   \<and> fmt_3f (megabytes_of 2000 100) = ''0.200''
   \<and> fmt_3f (megabits_of 2000 100) = ''1.600''"
proof (intro conjI impI)
  assume "0 \<le> count \<and> count \<le> INT_MAX \<and> elapsed \<noteq> 0"
  then have "0 \<le> count" "count \<le> INT_MAX" "elapsed \<noteq> 0" by simp_all
  from throughput_truncated [OF this]
  show "\<exists>t. throughput_of count elapsed = Inr t
         \<and> uint t = \<lfloor>fl (fl (of_int count / fl (of_int (uint elapsed))) * 1000000)\<rfloor>
         \<and> of_int count * 1000000 / of_int (uint elapsed) * (1 - 1 / 2 ^ 51) - 1
              < (of_int (uint t) :: rat)
         \<and> (of_int (uint t) :: rat)
              \<le> of_int count * 1000000 / of_int (uint elapsed) * (1 + 1 / 2 ^ 51)"
    unfolding rate_def .
next
  show "of_int (uint (t * msize)) / 1000000 * (1 - 1 / 2 ^ 51) \<le> megabytes_of t msize"
    by (rule megabytes_bounds)
  show "megabytes_of t msize \<le> of_int (uint (t * msize)) / 1000000 * (1 + 1 / 2 ^ 51)"
    by (rule megabytes_bounds)
next
  assume "uint (t * msize * 8) = 8 * uint (t * msize)"
  then show "megabits_of t msize = 8 * megabytes_of t msize" by (rule megabits_eight)
next
  show "aggregate_throughput cfg whole =
        throughput_of (message_count cfg) (if whole = 0 then 1 else whole)"
    by (simp add: aggregate_throughput_def aggregate_elapsed_def)
  show "throughput_of 1000 500000 = Inr 2000" by code_simp
  show "fmt_3f (megabytes_of 2000 100) = ''0.200''" by code_simp
  show "fmt_3f (megabits_of 2000 100) = ''1.600''" by code_simp
qed

theorem C6_throughput_truncated_witness:
  "(\<exists>t. throughput_of 1000 1500 = Inr t
       \<and> 1000 * 1000000 / 1500 * (1 - 1 / 2 ^ 51) - 1 < (of_int (uint t) :: rat)
       \<and> (of_int (uint t) :: rat) \<le> 1000 * 1000000 / 1500 * (1 + 1 / 2 ^ 51))
   \<and> uint (2000 * 100 * 8 :: 64 word) = 8 * uint (2000 * 100 :: 64 word)
   \<and> megabits_of 2000 100 = 8 * megabytes_of 2000 100"
proof -
  note th = C6_throughput_truncated [of 1000 1500 2000 100]
  have u: "uint (1500 :: 64 word) = 1500" by simp
  have h: "(0::int) \<le> 1000 \<and> 1000 \<le> INT_MAX \<and> (1500 :: 64 word) \<noteq> 0"
    by (simp add: INT_MAX_def)
  with th have "\<exists>t. throughput_of 1000 1500 = Inr t
       \<and> uint t = \<lfloor>fl (fl (of_int 1000 / fl (of_int (uint (1500 :: 64 word)))) * 1000000)\<rfloor>
       \<and> of_int 1000 * 1000000 / of_int (uint (1500 :: 64 word)) * (1 - 1 / 2 ^ 51) - 1
            < (of_int (uint t) :: rat)
       \<and> (of_int (uint t) :: rat)
            \<le> of_int 1000 * 1000000 / of_int (uint (1500 :: 64 word)) * (1 + 1 / 2 ^ 51)"
    by blast
  then have 1: "\<exists>t. throughput_of 1000 1500 = Inr t
       \<and> 1000 * 1000000 / 1500 * (1 - 1 / 2 ^ 51) - 1 < (of_int (uint t) :: rat)
       \<and> (of_int (uint t) :: rat) \<le> 1000 * 1000000 / 1500 * (1 + 1 / 2 ^ 51)"
    unfolding u by (simp only: of_int_numeral) blast
  have w: "uint (2000 * 100 * 8 :: 64 word) = 8 * uint (2000 * 100 :: 64 word)" by simp
  with th have 2: "megabits_of 2000 100 = 8 * megabytes_of 2000 100" by blast
  from 1 w 2 show ?thesis by blast
qed

end
